theory Spec2Isabelle
  imports Main "HOL-Library.Word"
begin

section \<open>ModificationSafeIterationVector: data model\<close>

text \<open>
  The header \<^verbatim>\<open>ModificationSafeIterationVector.h\<close> wraps a \<^verbatim>\<open>std::vector<T>\<close> (\<^verbatim>\<open>m_base\<close>)
  and keeps a list of raw pointers to every iterator object handed out
  (\<^verbatim>\<open>m_iterators\<close>). After each structural change \<^verbatim>\<open>completeRealloc\<close> walks that list and
  calls \<^verbatim>\<open>rebase\<close> on every iterator that is still alive.

  A pointer into the element storage (\<^verbatim>\<open>pointer\<close>) is a 64-bit machine word; \<^verbatim>\<open>nullptr\<close> is 0.
  Adding to a pointer wraps around, and pointers are compared as unsigned words, which is
  what \<open>\<le>\<close> and \<open><\<close> on words are. The unit of an address is one element, as in the pointer
  arithmetic of the source (for elements of one byte that is the byte address; for larger
  elements the byte address is this word times the size of an element). A
  \<^verbatim>\<open>difference_type\<close> is a 64-bit word as well, read in two's complement: the code adds
  such values to pointers and tests them against zero, and never compares two of them.
  Iterator objects and containers are identified by the address they live at, a natural
  number. A registry slot is \<open>Some h\<close> for the iterator at address \<open>h\<close> and \<open>None\<close> for
  \<^verbatim>\<open>nullptr\<close>.
\<close>

type_synonym pointer = "64 word"
type_synonym difference_type = "64 word"
type_synonym hid = nat
type_synonym cid = nat

datatype error =
    AssertionFailure
  | SubscriptOutOfRange
  | DanglingIterator
  | EmptyContainer
  | InvalidRead

subsection \<open>The backing store\<close>

text \<open>
  Modelled from the spec: the backing store \<^verbatim>\<open>std::vector<T>\<close> is the C++ standard library's
  and has no code under src/. Section 4.1 of the specification gives it "standard growable
  contiguous array semantics", a capacity growth strategy that is implementation-defined, and
  indexed access that fails with an assertion failure in debug builds when out of bounds.
  The address and the capacity that the allocator hands out on a reallocation are therefore
  parameters (\<open>allocation\<close>); a reallocation happens exactly when the required size exceeds
  the current capacity.
\<close>

record 'a std_vector =
  data :: pointer
  elems :: "'a list"
  capacity :: nat

record allocation =
  block :: pointer
  room :: nat

definition vec_grow :: "allocation \<Rightarrow> nat \<Rightarrow> 'a std_vector \<Rightarrow> 'a std_vector" where
  "vec_grow al need v =
     (if need \<le> capacity v then v
      else v\<lparr>data := block al, capacity := max need (room al)\<rparr>)"

definition vec_reserve :: "allocation \<Rightarrow> nat \<Rightarrow> 'a std_vector \<Rightarrow> 'a std_vector" where
  "vec_reserve al n v = vec_grow al n v"

definition vec_shrink_to_fit :: "allocation \<Rightarrow> 'a std_vector \<Rightarrow> 'a std_vector" where
  "vec_shrink_to_fit al v =
     (if capacity v = length (elems v) then v
      else v\<lparr>data := block al, capacity := length (elems v)\<rparr>)"

definition vec_push_back :: "allocation \<Rightarrow> 'a \<Rightarrow> 'a std_vector \<Rightarrow> 'a std_vector" where
  "vec_push_back al x v =
     (vec_grow al (Suc (length (elems v))) v)\<lparr>elems := elems v @ [x]\<rparr>"

definition vec_pop_back :: "'a std_vector \<Rightarrow> 'a std_vector" where
  "vec_pop_back v = v\<lparr>elems := butlast (elems v)\<rparr>"

definition vec_resize :: "allocation \<Rightarrow> nat \<Rightarrow> 'a \<Rightarrow> 'a std_vector \<Rightarrow> 'a std_vector" where
  "vec_resize al n x v =
     (if n \<le> length (elems v) then v\<lparr>elems := take n (elems v)\<rparr>
      else (vec_grow al n v)\<lparr>elems := elems v @ replicate (n - length (elems v)) x\<rparr>)"

text \<open>
  Modelled from the spec: \<^verbatim>\<open>&m_base[i]\<close>, the address of element \<open>i\<close> taken through
  \<^verbatim>\<open>std::vector::operator[]\<close>, which has no code under src/. Section 4.1: element access
  by index fails with an assertion failure in debug builds when the index is out of bounds.
  The container evaluates this expression in bounds-checking (debug) builds only.
\<close>

definition vec_subscript_addr :: "'a std_vector \<Rightarrow> nat \<Rightarrow> error + pointer" where
  "vec_subscript_addr v i =
     (if i < length (elems v) then Inr (data v + of_nat i) else Inl SubscriptOutOfRange)"

subsection \<open>Iterators, containers and the object store\<close>

text \<open>
  \<open>it_currentStart\<close> and \<open>it_currentEnd\<close> are the iterator's \<^verbatim>\<open>m_currentStart\<close> and
  \<^verbatim>\<open>m_currentEnd\<close>, which exist only when \<^verbatim>\<open>_MODIFICATION_SAFE_ITERATION_VECTOR_BOUNDS_CHECKING\<close>
  is defined (that is, unless \<^verbatim>\<open>NDEBUG\<close> is). The second is a pointer to the container's own
  \<^verbatim>\<open>m_currentEnd\<close> field, so it is recorded as the container it points into. Every operation
  below takes the build flavour as its first argument \<open>bc\<close>: \<open>True\<close> for a build with bounds
  checking, \<open>False\<close> for one without, where the two shadow fields are never read.
\<close>

record iter =
  m_pos :: pointer
  m_vec :: cid
  it_currentStart :: pointer
  it_currentEnd :: cid

record 'a msiv =
  m_base :: "'a std_vector"
  m_iterators :: "hid option list"
  m_currentStart :: pointer
  m_currentEnd :: pointer

record 'a world =
  vectors :: "cid \<Rightarrow> 'a msiv"
  iterators :: "hid \<rightharpoonup> iter"

subsection \<open>The registry: addIterator and removeIterator\<close>

definition addIterator :: "hid option list \<Rightarrow> hid \<Rightarrow> hid option list" where
  "addIterator reg h = reg @ [Some h]"

text \<open>The \<^verbatim>\<open>while\<close> loop of \<^verbatim>\<open>removeIterator\<close> that pops null entries off the back.\<close>

function trim_back :: "hid option list \<Rightarrow> hid option list" where
  "trim_back reg = (if reg \<noteq> [] \<and> last reg = None then trim_back (butlast reg) else reg)"
  by pat_completeness auto
termination
  by (relation "measure length") auto

declare trim_back.simps [simp del]

definition tombstone :: "hid \<Rightarrow> hid option \<Rightarrow> hid option" where
  "tombstone h i = (if i = Some h then None else i)"

definition removeIterator :: "hid option list \<Rightarrow> hid \<Rightarrow> hid option list" where
  "removeIterator reg h = trim_back (map (tombstone h) reg)"

subsection \<open>The iterator: construction, copy, assignment, destruction\<close>

text \<open>
  The protected constructor \<^verbatim>\<open>ModificationSafeIterationVectorConstIterator(pos, vector)\<close>,
  run for the iterator object at address \<open>h\<close>. With bounds checking its initialiser list
  evaluates \<^verbatim>\<open>&vector->m_base[0]\<close> before the body registers the object.
\<close>

definition new_iterator :: "bool \<Rightarrow> cid \<Rightarrow> pointer \<Rightarrow> hid \<Rightarrow> 'a world \<Rightarrow> error + 'a world" where
  "new_iterator bc c pos h w =
     (let v = vectors w c in
      case (if bc then vec_subscript_addr (m_base v) 0 else Inr 0) of
        Inl e \<Rightarrow> Inl e
      | Inr start \<Rightarrow>
          Inr (w\<lparr>vectors := (vectors w)(c := v\<lparr>m_iterators := addIterator (m_iterators v) h\<rparr>),
                 iterators := (iterators w)(h \<mapsto>
                   \<lparr>m_pos = pos, m_vec = c, it_currentStart = start, it_currentEnd = c\<rparr>)\<rparr>))"

text \<open>\<^verbatim>\<open>begin()\<close> and \<^verbatim>\<open>end()\<close>; the new iterator object lives at address \<open>h\<close>
  (\<open>begin\<close> and \<open>end\<close> are reserved words, hence the suffix).\<close>

definition begin_it :: "bool \<Rightarrow> cid \<Rightarrow> hid \<Rightarrow> 'a world \<Rightarrow> error + 'a world" where
  "begin_it bc c h w = new_iterator bc c (data (m_base (vectors w c))) h w"

definition end_it :: "bool \<Rightarrow> cid \<Rightarrow> hid \<Rightarrow> 'a world \<Rightarrow> error + 'a world" where
  "end_it bc c h w =
     new_iterator bc c
       (data (m_base (vectors w c)) + of_nat (length (elems (m_base (vectors w c))))) h w"

text \<open>
  The iterator class declares \<^verbatim>\<open>operator=\<close> and a destructor but no copy constructor, so
  copying an iterator into a new object (at address \<open>h\<close>) is the member-wise copy that the
  compiler generates: the four fields are copied and \<^verbatim>\<open>addIterator\<close> is not called.
\<close>

definition copy_construct :: "hid \<Rightarrow> hid \<Rightarrow> 'a world \<Rightarrow> error + 'a world" where
  "copy_construct h other w =
     (case iterators w other of
        None \<Rightarrow> Inl DanglingIterator
      | Some it \<Rightarrow> Inr (w\<lparr>iterators := (iterators w)(h \<mapsto> it)\<rparr>))"

text \<open>\<^verbatim>\<open>operator=(other)\<close> on the iterator at address \<open>h\<close>.\<close>

definition assign :: "bool \<Rightarrow> hid \<Rightarrow> hid \<Rightarrow> 'a world \<Rightarrow> error + 'a world" where
  "assign bc h other w =
     (case (iterators w h, iterators w other) of
        (Some this, Some ot) \<Rightarrow>
          (let this1 = this\<lparr>m_pos := m_pos ot\<rparr>;
               vs = vectors w;
               vs1 = (if m_vec this1 \<noteq> m_vec ot
                      then vs(m_vec this1 := (vs (m_vec this1))
                              \<lparr>m_iterators := removeIterator (m_iterators (vs (m_vec this1))) h\<rparr>)
                      else vs);
               this2 = (if m_vec this1 \<noteq> m_vec ot then this1\<lparr>m_vec := m_vec ot\<rparr> else this1);
               vs2 = (if m_vec this1 \<noteq> m_vec ot
                      then vs1(m_vec this2 := (vs1 (m_vec this2))
                              \<lparr>m_iterators := addIterator (m_iterators (vs1 (m_vec this2))) h\<rparr>)
                      else vs1);
               this3 = (if bc then this2\<lparr>it_currentStart := it_currentStart ot,
                                           it_currentEnd := it_currentEnd ot\<rparr>
                        else this2)
           in Inr (w\<lparr>vectors := vs2, iterators := (iterators w)(h \<mapsto> this3)\<rparr>))
      | _ \<Rightarrow> Inl DanglingIterator)"

text \<open>The destructor of the iterator at address \<open>h\<close>; afterwards the object is gone.\<close>

definition destroy :: "hid \<Rightarrow> 'a world \<Rightarrow> error + 'a world" where
  "destroy h w =
     (case iterators w h of
        None \<Rightarrow> Inl DanglingIterator
      | Some it \<Rightarrow>
          Inr (w\<lparr>vectors := (vectors w)(m_vec it := (vectors w (m_vec it))
                    \<lparr>m_iterators := removeIterator (m_iterators (vectors w (m_vec it))) h\<rparr>),
                 iterators := (iterators w)(h := None)\<rparr>))"

text \<open>
  \<^verbatim>\<open>operator*\<close>: the two assertions of a bounds-checking build, then the read of \<^verbatim>\<open>*m_pos\<close>.
  The read is defined when the address is that of a live element of the iterator's
  container, that is, when its distance from \<^verbatim>\<open>data()\<close> is below \<^verbatim>\<open>size()\<close>; any other
  address is reported as \<open>InvalidRead\<close>.
\<close>

definition read_element :: "'a std_vector \<Rightarrow> pointer \<Rightarrow> error + 'a" where
  "read_element v p =
     (if p - data v < of_nat (length (elems v))
      then Inr (elems v ! unat (p - data v)) else Inl InvalidRead)"

definition deref :: "bool \<Rightarrow> hid \<Rightarrow> 'a world \<Rightarrow> error + 'a" where
  "deref bc h w =
     (case iterators w h of
        None \<Rightarrow> Inl DanglingIterator
      | Some it \<Rightarrow>
          if bc \<and> \<not> it_currentStart it \<le> m_pos it then Inl AssertionFailure
          else if bc \<and> \<not> m_pos it < m_currentEnd (vectors w (it_currentEnd it))
          then Inl AssertionFailure
          else read_element (m_base (vectors w (m_vec it))) (m_pos it))"

text \<open>\<^verbatim>\<open>operator==\<close> between the iterators at addresses \<open>a\<close> and \<open>b\<close>.\<close>

definition iter_eq :: "bool \<Rightarrow> hid \<Rightarrow> hid \<Rightarrow> 'a world \<Rightarrow> error + bool" where
  "iter_eq bc a b w =
     (case (iterators w a, iterators w b) of
        (Some x, Some y) \<Rightarrow>
          if bc \<and> m_vec y \<noteq> m_vec x then Inl AssertionFailure
          else Inr (m_pos x = m_pos y)
      | _ \<Rightarrow> Inl DanglingIterator)"

text \<open>\<^verbatim>\<open>operator++()\<close> on the iterator at address \<open>h\<close>.\<close>

definition increment :: "bool \<Rightarrow> hid \<Rightarrow> 'a world \<Rightarrow> error + 'a world" where
  "increment bc h w =
     (case iterators w h of
        None \<Rightarrow> Inl DanglingIterator
      | Some it \<Rightarrow>
          if bc \<and> \<not> m_pos it < m_currentEnd (vectors w (it_currentEnd it))
          then Inl AssertionFailure
          else Inr (w\<lparr>iterators := (iterators w)(h \<mapsto> it\<lparr>m_pos := m_pos it + 1\<rparr>)\<rparr>))"

subsection \<open>rebase and completeRealloc\<close>

text \<open>
  \<^verbatim>\<open>rebase(offset, insert_ptr, insert_size)\<close> on one iterator. \<open>cur_end\<close> is the value read
  through the iterator's \<^verbatim>\<open>m_currentEnd\<close> pointer, used by a bounds-checking build only.
  \<^verbatim>\<open>m_pos >= insert_ptr\<close> and the two assertions compare pointers.
\<close>

definition rebase ::
  "bool \<Rightarrow> pointer \<Rightarrow> difference_type \<Rightarrow> pointer \<Rightarrow> difference_type \<Rightarrow> iter \<Rightarrow> error + iter" where
  "rebase bc cur_end offset insert_ptr insert_size it =
     (let it1 = it\<lparr>m_pos := m_pos it + offset\<rparr>;
          it2 = (if insert_size \<noteq> 0 \<and> insert_ptr \<le> m_pos it1
                 then it1\<lparr>m_pos := m_pos it1 + insert_size\<rparr> else it1)
      in if bc then
           (let it3 = it2\<lparr>it_currentStart := it_currentStart it2 + offset\<rparr>
            in if \<not> it_currentStart it3 \<le> m_pos it3 then Inl AssertionFailure
               else if \<not> m_pos it3 \<le> cur_end then Inl AssertionFailure
               else Inr it3)
         else Inr it2)"

text \<open>The loop of \<^verbatim>\<open>completeRealloc\<close> over \<^verbatim>\<open>m_iterators\<close>: null entries are skipped.\<close>

fun rebase_all ::
  "bool \<Rightarrow> (cid \<Rightarrow> 'a msiv) \<Rightarrow> difference_type \<Rightarrow> pointer \<Rightarrow> difference_type \<Rightarrow>
     hid option list \<Rightarrow> (hid \<rightharpoonup> iter) \<Rightarrow> error + (hid \<rightharpoonup> iter)" where
  "rebase_all bc vs offset insert_ptr insert_size [] its = Inr its"
| "rebase_all bc vs offset insert_ptr insert_size (None # reg) its =
     rebase_all bc vs offset insert_ptr insert_size reg its"
| "rebase_all bc vs offset insert_ptr insert_size (Some h # reg) its =
     (case its h of
        None \<Rightarrow> Inl DanglingIterator
      | Some it \<Rightarrow>
          (case rebase bc (m_currentEnd (vs (it_currentEnd it))) offset insert_ptr insert_size it of
             Inl e \<Rightarrow> Inl e
           | Inr it' \<Rightarrow> rebase_all bc vs offset insert_ptr insert_size reg (its(h \<mapsto> it'))))"

definition completeRealloc ::
  "bool \<Rightarrow> cid \<Rightarrow> pointer \<Rightarrow> difference_type \<Rightarrow> difference_type \<Rightarrow> 'a world \<Rightarrow> error + 'a world" where
  "completeRealloc bc c preStart insert_pos insert_size w =
     (let v = vectors w c;
          newSize = length (elems (m_base v));
          newStart = (if newSize > 0 then data (m_base v) else 0);
          offset = newStart - preStart
      in if offset = 0 \<and> insert_size = 0 then Inr w
         else
          (let v1 = (if bc \<and> offset \<noteq> 0
                     then v\<lparr>m_currentStart := newStart, m_currentEnd := newStart + of_nat newSize\<rparr>
                     else v);
               v2 = (if bc then v1\<lparr>m_currentEnd := m_currentEnd v1 + insert_size\<rparr> else v1);
               vs = (vectors w)(c := v2);
               insert_ptr = newStart + insert_pos
           in case rebase_all bc vs offset insert_ptr insert_size (m_iterators v2) (iterators w) of
                Inl e \<Rightarrow> Inl e
              | Inr its \<Rightarrow> Inr (w\<lparr>vectors := vs, iterators := its\<rparr>)))"

subsection \<open>The container's operations\<close>

text \<open>
  The members below are the structural operations that can be instantiated. The others
  have bodies that do not compile once instantiated and are not modelled: every overload
  of \<^verbatim>\<open>insert\<close>, \<^verbatim>\<open>emplace\<close> and both overloads of \<^verbatim>\<open>erase\<close> end in
  \<^verbatim>\<open>return iterator(m_base.data() + (rv - m_base.begin()))\<close>, and the iterator classes have
  no constructor of one argument; the single-element overloads of \<^verbatim>\<open>insert\<close> also call
  \<^verbatim>\<open>m_base.insert(val)\<close> without a position, \<^verbatim>\<open>emplace\<close> and \<^verbatim>\<open>emplace_back\<close> pass their
  parameter pack unexpanded, and \<^verbatim>\<open>erase(first, last)\<close> reads a member \<^verbatim>\<open>pos\<close> that the
  iterator does not have. In a build with bounds checking \<^verbatim>\<open>clear()\<close> and both forms of
  \<^verbatim>\<open>swap()\<close> call \<^verbatim>\<open>iteratorCount()\<close>, whose test \<^verbatim>\<open>*i != nullptr\<close> compares an iterator object
  with \<^verbatim>\<open>nullptr\<close>, a comparison that does not exist; without bounds checking they are
  calls of the backing store alone, which touch no iterator.
\<close>

definition put_base :: "cid \<Rightarrow> 'a std_vector \<Rightarrow> 'a world \<Rightarrow> 'a world" where
  "put_base c b w = w\<lparr>vectors := (vectors w)(c := (vectors w c)\<lparr>m_base := b\<rparr>)\<rparr>"

definition reserve :: "bool \<Rightarrow> allocation \<Rightarrow> cid \<Rightarrow> nat \<Rightarrow> 'a world \<Rightarrow> error + 'a world" where
  "reserve bc al c cap w =
     (let pre = data (m_base (vectors w c));
          w1 = put_base c (vec_reserve al cap (m_base (vectors w c))) w
      in completeRealloc bc c pre 0 0 w1)"

definition shrink_to_fit :: "bool \<Rightarrow> allocation \<Rightarrow> cid \<Rightarrow> 'a world \<Rightarrow> error + 'a world" where
  "shrink_to_fit bc al c w =
     (let pre = data (m_base (vectors w c));
          w1 = put_base c (vec_shrink_to_fit al (m_base (vectors w c))) w
      in completeRealloc bc c pre 0 0 w1)"

definition push_back :: "bool \<Rightarrow> allocation \<Rightarrow> cid \<Rightarrow> 'a \<Rightarrow> 'a world \<Rightarrow> error + 'a world" where
  "push_back bc al c val w =
     (let b = m_base (vectors w c);
          offset = of_nat (length (elems b));
          pre = data b;
          w1 = put_base c (vec_push_back al val b) w
      in completeRealloc bc c pre offset 1 w1)"

text \<open>
  \<^verbatim>\<open>pop_back()\<close>. A bounds-checking build asserts that the container is not empty; without
  the assertion \<^verbatim>\<open>std::vector::pop_back\<close> on an empty vector is undefined behaviour.
\<close>

definition pop_back :: "bool \<Rightarrow> cid \<Rightarrow> 'a world \<Rightarrow> error + 'a world" where
  "pop_back bc c w =
     (let b = m_base (vectors w c)
      in if elems b = [] then Inl (if bc then AssertionFailure else EmptyContainer)
         else
          (let pre = data b;
               w1 = put_base c (vec_pop_back b) w
           in completeRealloc bc c pre (of_nat (length (elems (m_base (vectors w1 c))))) (- 1) w1))"

text \<open>
  \<^verbatim>\<open>resize(count, value)\<close>. The third argument of \<^verbatim>\<open>completeRealloc\<close> is the unsigned
  difference \<^verbatim>\<open>m_base.size() - initial_size\<close> converted to \<^verbatim>\<open>difference_type\<close>.
\<close>

definition resize :: "bool \<Rightarrow> allocation \<Rightarrow> cid \<Rightarrow> nat \<Rightarrow> 'a \<Rightarrow> 'a world \<Rightarrow> error + 'a world" where
  "resize bc al c count val w =
     (let b = m_base (vectors w c);
          initial_size = length (elems b)
      in if count = initial_size then Inr w
         else
          (let pre = data b;
               w1 = put_base c (vec_resize al count val b) w;
               new_size = length (elems (m_base (vectors w1 c)))
           in if count > initial_size
              then completeRealloc bc c pre (of_nat initial_size)
                     (of_nat new_size - of_nat initial_size) w1
              else completeRealloc bc c pre (of_nat new_size)
                     (of_nat new_size - of_nat initial_size) w1))"

subsection \<open>Programs: a fresh world and sequential composition\<close>

text \<open>
  The container class declares no constructor: a new container has an empty backing store
  with no storage (\<^verbatim>\<open>data()\<close> is \<^verbatim>\<open>nullptr\<close>, capacity 0) and an empty registry, and nothing
  sets its two shadow pointers: they hold whatever values \<open>s\<close> and \<open>e\<close> they start out
  with. In \<open>new_world\<close> every container is value-initialised (\<^verbatim>\<open>ModificationSafeIterationVector<T> v{}\<close>,
  or an object of static storage duration), which zeroes them.
\<close>

definition new_msiv :: "pointer \<Rightarrow> pointer \<Rightarrow> 'a msiv" where
  "new_msiv s e =
     \<lparr>m_base = \<lparr>data = 0, elems = [], capacity = 0\<rparr>, m_iterators = [],
      m_currentStart = s, m_currentEnd = e\<rparr>"

definition new_world :: "'a world" where
  "new_world = \<lparr>vectors = (\<lambda>c. new_msiv 0 0), iterators = Map.empty\<rparr>"

text \<open>Statements in sequence; the first failure ends the run.\<close>

fun run :: "('s \<Rightarrow> error + 's) list \<Rightarrow> 's \<Rightarrow> error + 's" where
  "run [] w = Inr w"
| "run (f # fs) w = (case f w of Inl e \<Rightarrow> Inl e | Inr w' \<Rightarrow> run fs w')"

text \<open>Observations on the result of a run.\<close>

definition position_of :: "hid \<Rightarrow> error + 'a world \<Rightarrow> pointer option" where
  "position_of h r =
     (case r of Inl e \<Rightarrow> None
      | Inr w \<Rightarrow> (case iterators w h of None \<Rightarrow> None | Some it \<Rightarrow> Some (m_pos it)))"

definition contents_of :: "cid \<Rightarrow> error + 'a world \<Rightarrow> 'a list option" where
  "contents_of c r = (case r of Inl e \<Rightarrow> None | Inr w \<Rightarrow> Some (elems (m_base (vectors w c))))"

definition registry_of :: "cid \<Rightarrow> error + 'a world \<Rightarrow> hid option list option" where
  "registry_of c r = (case r of Inl e \<Rightarrow> None | Inr w \<Rightarrow> Some (m_iterators (vectors w c)))"

definition deref_in :: "bool \<Rightarrow> hid \<Rightarrow> error + 'a world \<Rightarrow> error + 'a" where
  "deref_in bc h r = (case r of Inl e \<Rightarrow> Inl e | Inr w \<Rightarrow> deref bc h w)"

definition failure_of :: "error + 'a \<Rightarrow> error option" where
  "failure_of r = (case r of Inl e \<Rightarrow> Some e | Inr w \<Rightarrow> None)"

definition storage_of :: "cid \<Rightarrow> error + 'a world \<Rightarrow> (pointer \<times> nat) option" where
  "storage_of c r =
     (case r of Inl e \<Rightarrow> None
      | Inr w \<Rightarrow> Some (data (m_base (vectors w c)), capacity (m_base (vectors w c))))"

subsection \<open>Concrete programs\<close>

text \<open>
  Container 0 is empty and gets storage for eight elements at address 100 from
  \<^verbatim>\<open>reserve(8)\<close>; iterator 1 is \<^verbatim>\<open>begin()\<close>. No bounds checking.
\<close>

definition reserved_empty :: "(int world \<Rightarrow> error + int world) list" where
  "reserved_empty = [reserve False \<lparr>block = 100, room = 8\<rparr> 0 8, begin_it False 0 1]"

text \<open>
  Container 0 is filled with 10, 20, 30 at capacity 3 (storage at address 100); iterator 1
  is \<^verbatim>\<open>begin()\<close> and the iterator object at address 2 is copy-constructed from it. No
  bounds checking.
\<close>

definition copied_iterator :: "(int world \<Rightarrow> error + int world) list" where
  "copied_iterator =
     [push_back False \<lparr>block = 100, room = 3\<rparr> 0 10,
      push_back False \<lparr>block = 100, room = 3\<rparr> 0 20,
      push_back False \<lparr>block = 100, room = 3\<rparr> 0 30,
      begin_it False 0 1, copy_construct 2 1]"

text \<open>
  The same calls in both builds, selected by \<open>bc\<close>: \<^verbatim>\<open>push_back(10)\<close> gives container 0
  storage for four elements at address 100, \<^verbatim>\<open>pop_back()\<close> empties it again,
  \<^verbatim>\<open>push_back(20)\<close> puts the element 20 into the storage it already has, and iterator 1 is
  \<^verbatim>\<open>begin()\<close>, which points at 20.
\<close>

definition emptied_then_filled :: "bool \<Rightarrow> (int world \<Rightarrow> error + int world) list" where
  "emptied_then_filled bc =
     [push_back bc \<lparr>block = 100, room = 4\<rparr> 0 10,
      pop_back bc 0,
      push_back bc \<lparr>block = 100, room = 4\<rparr> 0 20,
      begin_it bc 0 1]"

text \<open>
  Container 0 is filled with 10, 20, 30 at capacity 3 (storage at address 100); iterator 1
  is \<^verbatim>\<open>begin()\<close>, moved on by one element to 20. No bounds checking.
\<close>

definition second_of_three :: "(int world \<Rightarrow> error + int world) list" where
  "second_of_three =
     [push_back False \<lparr>block = 100, room = 3\<rparr> 0 10,
      push_back False \<lparr>block = 100, room = 3\<rparr> 0 20,
      push_back False \<lparr>block = 100, room = 3\<rparr> 0 30,
      begin_it False 0 1, increment False 1]"

subsection \<open>Following one element through a series of calls\<close>

text \<open>
  What the container promises about an iterator \<open>h\<close> of container \<open>c\<close>: every registered
  iterator is a live object, \<open>h\<close> is registered exactly once, it belongs to \<open>c\<close>, and it
  stands \<open>i\<close> elements after the start of the storage.
\<close>

definition registry_live :: "cid \<Rightarrow> 'a world \<Rightarrow> bool" where
  "registry_live c w =
     list_all (\<lambda>s. case s of None \<Rightarrow> True | Some k \<Rightarrow> iterators w k \<noteq> None)
       (m_iterators (vectors w c))"

definition registered :: "cid \<Rightarrow> hid \<Rightarrow> 'a world \<Rightarrow> bool" where
  "registered c h w = (count_list (m_iterators (vectors w c)) (Some h) = 1)"

definition at_index :: "cid \<Rightarrow> hid \<Rightarrow> nat \<Rightarrow> 'a world \<Rightarrow> bool" where
  "at_index c h i w =
     (map_option m_pos (iterators w h) = Some (data (m_base (vectors w c)) + of_nat i))"

definition tracked :: "cid \<Rightarrow> hid \<Rightarrow> nat \<Rightarrow> 'a world \<Rightarrow> bool" where
  "tracked c h i w =
     (registry_live c w \<and> registered c h w \<and> at_index c h i w \<and>
      map_option m_vec (iterators w h) = Some c)"

text \<open>
  The storage of a backing store lies inside the address space: its elements fit its
  capacity, and the address one past the capacity is reached from \<^verbatim>\<open>data()\<close> without
  wrapping around. \<open>fits\<close> says the same of the storage that an allocation hands out for
  \<open>need\<close> elements.
\<close>

definition in_address_space :: "'a std_vector \<Rightarrow> bool" where
  "in_address_space v = (length (elems v) \<le> capacity v \<and> unat (data v) + capacity v < 2 ^ 64)"

definition fits :: "allocation \<Rightarrow> nat \<Rightarrow> bool" where
  "fits al need = (unat (block al) + max need (room al) < 2 ^ 64)"

text \<open>
  A call of a mutating member, or the creation of an iterator at the index \<open>j\<close> of the
  container (\<^verbatim>\<open>begin()\<close> is index 0, \<^verbatim>\<open>end()\<close> the size). \<open>mutate\<close> runs the call in a build
  without bounds checking.
\<close>

datatype 'a mutation =
    PushBack allocation 'a
  | PopBack
  | Resize allocation nat 'a
  | Reserve allocation nat
  | ShrinkToFit allocation
  | NewIterator nat hid

fun mutate :: "cid \<Rightarrow> 'a mutation \<Rightarrow> 'a world \<Rightarrow> error + 'a world" where
  "mutate c (PushBack al x) w = push_back False al c x w"
| "mutate c PopBack w = pop_back False c w"
| "mutate c (Resize al n x) w = resize False al c n x w"
| "mutate c (Reserve al n) w = reserve False al c n w"
| "mutate c (ShrinkToFit al) w = shrink_to_fit False al c w"
| "mutate c (NewIterator j rid) w =
     new_iterator False c (data (m_base (vectors w c)) + of_nat j) rid w"

text \<open>
  The calls considered below, on a container of \<open>n\<close> elements: \<^verbatim>\<open>pop_back\<close> finds an
  element, a new iterator is created inside the container or at its end, and the storage
  that a reallocation would hand out lies inside the address space.
\<close>

fun admissible_mutation :: "'a mutation \<Rightarrow> nat \<Rightarrow> bool" where
  "admissible_mutation (PushBack al x) n = fits al (Suc n)"
| "admissible_mutation PopBack n = (0 < n)"
| "admissible_mutation (Resize al k x) n = fits al k"
| "admissible_mutation (Reserve al k) n = fits al k"
| "admissible_mutation (ShrinkToFit al) n = fits al n"
| "admissible_mutation (NewIterator j rid) n = (j \<le> n)"

text \<open>The size of the container after a call, as \<^verbatim>\<open>std::vector\<close> defines it.\<close>

fun size_after :: "'a mutation \<Rightarrow> nat \<Rightarrow> nat" where
  "size_after (PushBack al x) n = Suc n"
| "size_after PopBack n = n - 1"
| "size_after (Resize al k x) n = k"
| "size_after m n = n"

text \<open>
  Whether the element at index \<open>i\<close> of a container of \<open>n\<close> elements is still in the container
  after the call. None of these calls moves an element to another index.
\<close>

fun keeps :: "'a mutation \<Rightarrow> nat \<Rightarrow> nat \<Rightarrow> bool" where
  "keeps PopBack n i = (Suc i \<noteq> n)"
| "keeps (Resize al k x) n i = (i < k)"
| "keeps m n i = True"

text \<open>The address of the iterator object that a call creates.\<close>

fun new_handle :: "'a mutation \<Rightarrow> hid list" where
  "new_handle (NewIterator j rid) = [rid]"
| "new_handle m = []"

fun mutations :: "cid \<Rightarrow> 'a mutation list \<Rightarrow> 'a world \<Rightarrow> error + 'a world" where
  "mutations c [] w = Inr w"
| "mutations c (m # ms) w = (case mutate c m w of Inl e \<Rightarrow> Inl e | Inr w' \<Rightarrow> mutations c ms w')"

fun admissible_mutations :: "'a mutation list \<Rightarrow> nat \<Rightarrow> bool" where
  "admissible_mutations [] n = True"
| "admissible_mutations (m # ms) n = (admissible_mutation m n \<and> admissible_mutations ms (size_after m n))"

fun keeps_all :: "'a mutation list \<Rightarrow> nat \<Rightarrow> nat \<Rightarrow> bool" where
  "keeps_all [] n i = True"
| "keeps_all (m # ms) n i = (keeps m n i \<and> keeps_all ms (size_after m n) i)"

fun new_handles :: "'a mutation list \<Rightarrow> hid list" where
  "new_handles [] = []"
| "new_handles (m # ms) = new_handle m @ new_handles ms"

section \<open>ModelCache\<close>

text \<open>
  \<^verbatim>\<open>ModelCache::FindModel\<close>. The cache \<^verbatim>\<open>m_models\<close> is a \<^verbatim>\<open>std::map\<close> from names to model
  pointers. \<^verbatim>\<open>SceneGraph::Loader\<close> has no code under src/: its \<^verbatim>\<open>LoadModel\<close> is a parameter
  that answers \<open>None\<close> when it throws \<^verbatim>\<open>LoadingError\<close>, the one exception the function
  catches. The result pairs the value returned or the exception thrown with the cache
  afterwards.
\<close>

datatype cache_error = ModelNotFoundException

definition FindModel ::
  "(string \<Rightarrow> 'm option) \<Rightarrow> (string \<rightharpoonup> 'm) \<Rightarrow> string \<Rightarrow> (cache_error + 'm) \<times> (string \<rightharpoonup> 'm)" where
  "FindModel LoadModel m_models name =
     (case m_models name of
        None \<Rightarrow>
          (case LoadModel name of
             Some m \<Rightarrow> (Inr m, m_models(name \<mapsto> m))
           | None \<Rightarrow> (Inl ModelNotFoundException, m_models))
      | Some m \<Rightarrow> (Inr m, m_models))"

text \<open>Any number of further lookups, each with the loader as it behaves at that moment.\<close>

fun FindModels :: "((string \<Rightarrow> 'm option) \<times> string) list \<Rightarrow> (string \<rightharpoonup> 'm) \<Rightarrow> (string \<rightharpoonup> 'm)" where
  "FindModels [] m_models = m_models"
| "FindModels ((LoadModel, name) # rest) m_models =
     FindModels rest (snd (FindModel LoadModel m_models name))"

section \<open>Properties of the registry\<close>

lemma trim_back_Nil: "trim_back [] = []"
  by (simp add: trim_back.simps)

lemma trim_back_snoc_None: "trim_back (reg @ [None]) = trim_back reg"
  by (subst trim_back.simps) simp

lemma trim_back_snoc_Some: "trim_back (reg @ [Some h]) = reg @ [Some h]"
  by (subst trim_back.simps) simp

lemma trim_back_prefix:
  "\<exists>k \<le> length reg. trim_back reg = take k reg \<and> (\<forall>j. k \<le> j \<and> j < length reg \<longrightarrow> reg ! j = None)"
proof (induction reg rule: rev_induct)
  case Nil
  show ?case by (simp add: trim_back_Nil)
next
  case (snoc x reg)
  show ?case
  proof (cases x)
    case None
    from snoc obtain k where k: "k \<le> length reg" "trim_back reg = take k reg"
      "\<forall>j. k \<le> j \<and> j < length reg \<longrightarrow> reg ! j = None"
      by blast
    have "\<forall>j. k \<le> j \<and> j < length (reg @ [x]) \<longrightarrow> (reg @ [x]) ! j = None"
      using k(3) None by (auto simp: nth_append)
    moreover have "trim_back (reg @ [x]) = take k (reg @ [x])"
      using k(1,2) None by (simp add: trim_back_snoc_None)
    ultimately show ?thesis
      using k(1) by (intro exI [of _ k]) simp
  next
    case (Some h)
    have "trim_back (reg @ [x]) = take (length (reg @ [x])) (reg @ [x])"
      using Some by (simp add: trim_back_snoc_Some)
    moreover have "\<forall>j. length (reg @ [x]) \<le> j \<and> j < length (reg @ [x]) \<longrightarrow> (reg @ [x]) ! j = None"
      by auto
    ultimately show ?thesis
      by blast
  qed
qed

lemma trim_back_last: "trim_back reg \<noteq> [] \<Longrightarrow> last (trim_back reg) \<noteq> None"
proof (induction reg rule: rev_induct)
  case Nil
  then show ?case by (simp add: trim_back_Nil)
next
  case (snoc x reg)
  then show ?case
    by (cases x) (simp_all add: trim_back_snoc_None trim_back_snoc_Some)
qed

text \<open>
  C7. Deregistering the iterator \<open>h\<close> keeps a prefix of the registry. Inside that prefix a
  slot that held \<open>h\<close> now holds the tombstone and every other slot, tombstones included,
  holds what it held before at the same index (nothing is compacted). Every slot that was
  cut off from the end is a tombstone after the replacement, and what remains is either
  empty or ends in a live entry.
\<close>

theorem removeIterator_tombstones_and_trims:
  "length (removeIterator reg h) \<le> length reg \<and>
   (\<forall>j < length (removeIterator reg h).
      removeIterator reg h ! j = (if reg ! j = Some h then None else reg ! j)) \<and>
   (\<forall>j. length (removeIterator reg h) \<le> j \<and> j < length reg \<longrightarrow>
      reg ! j = Some h \<or> reg ! j = None) \<and>
   (removeIterator reg h \<noteq> [] \<longrightarrow> last (removeIterator reg h) \<noteq> None) \<and>
   Some h \<notin> set (removeIterator reg h)"
proof -
  let ?m = "map (tombstone h) reg"
  obtain k where k: "k \<le> length ?m" "trim_back ?m = take k ?m"
    "\<forall>j. k \<le> j \<and> j < length ?m \<longrightarrow> ?m ! j = None"
    using trim_back_prefix [of ?m] by blast
  have len: "length (removeIterator reg h) = k"
    using k(1,2) by (simp add: removeIterator_def)
  have slots: "\<forall>j < length (removeIterator reg h).
      removeIterator reg h ! j = (if reg ! j = Some h then None else reg ! j)"
    using k(1,2) by (simp add: removeIterator_def tombstone_def)
  have cut: "\<forall>j. length (removeIterator reg h) \<le> j \<and> j < length reg \<longrightarrow>
      reg ! j = Some h \<or> reg ! j = None"
  proof (intro allI impI)
    fix j
    assume j: "length (removeIterator reg h) \<le> j \<and> j < length reg"
    then have "?m ! j = None" using k(3) len by simp
    then show "reg ! j = Some h \<or> reg ! j = None"
      using j by (simp add: tombstone_def split: if_splits)
  qed
  have lst: "removeIterator reg h \<noteq> [] \<longrightarrow> last (removeIterator reg h) \<noteq> None"
    using trim_back_last [of ?m] by (simp add: removeIterator_def)
  have "Some h \<notin> set ?m" by (auto simp: tombstone_def)
  then have gone: "Some h \<notin> set (removeIterator reg h)"
    using k(2) by (auto simp: removeIterator_def dest: in_set_takeD)
  show ?thesis
    using len k(1) slots cut lst gone by simp
qed

theorem removeIterator_tombstones_and_trims_witness:
  "removeIterator [Some 1, None, Some 2, Some 3, Some 4] 3 = [Some 1, None, Some 2, None, Some 4] \<and>
   removeIterator [Some 1, None, Some 2, Some 3] 3 = [Some 1, None, Some 2] \<and>
   length (removeIterator [Some 1, None, Some 2, Some 3] 3) \<le> 4 \<and>
   removeIterator [Some 1, None, Some 2, Some 3] 3 ! 1 = None \<and>
   last (removeIterator [Some 1, None, Some 2, Some 3] 3) \<noteq> None \<and>
   Some 3 \<notin> set (removeIterator [Some 1, None, Some 2, Some 3] 3)"
proof -
  have a: "removeIterator [Some 1, None, Some 2, Some 3, Some 4] 3 = [Some 1, None, Some 2, None, Some 4]"
    by (simp add: removeIterator_def tombstone_def trim_back.simps)
  have b: "removeIterator [Some 1, None, Some 2, Some 3] 3 = [Some 1, None, Some 2]"
    by (simp add: removeIterator_def tombstone_def trim_back.simps)
  show ?thesis
    using a b removeIterator_tombstones_and_trims [of "[Some 1, None, Some 2, Some 3]" 3]
    by simp
qed

section \<open>Properties of rebase and of the broadcast\<close>

lemma rebase_m_pos:
  "rebase bc ce off ip sz it = Inr it' \<Longrightarrow>
   m_pos it' = (if sz \<noteq> 0 \<and> ip \<le> m_pos it + off then m_pos it + off + sz else m_pos it + off)"
  by (auto simp: rebase_def Let_def split: if_splits)

lemma rebase_unchecked: "\<exists>it'. rebase False ce off ip sz it = Inr it'"
  by (simp add: rebase_def Let_def)

lemma rebase_all_unregistered:
  "rebase_all bc vs off ip sz reg its = Inr its' \<Longrightarrow> Some h \<notin> set reg \<Longrightarrow> its' h = its h"
proof (induction reg arbitrary: its)
  case Nil
  then show ?case by simp
next
  case (Cons s reg)
  show ?case
  proof (cases s)
    case None
    with Cons show ?thesis by simp
  next
    case (Some k)
    with Cons.prems obtain it it' where
      k: "its k = Some it" "rebase_all bc vs off ip sz reg (its(k \<mapsto> it')) = Inr its'"
      by (auto split: option.splits sum.splits)
    from Cons.prems(2) Some have "k \<noteq> h" "Some h \<notin> set reg" by auto
    with Cons.IH [OF k(2)] show ?thesis by simp
  qed
qed

lemma rebase_all_registered:
  "rebase_all bc vs off ip sz reg its = Inr its' \<Longrightarrow> count_list reg (Some h) = 1 \<Longrightarrow>
   its h = Some it \<Longrightarrow>
   \<exists>it'. its' h = Some it' \<and>
     m_pos it' = (if sz \<noteq> 0 \<and> ip \<le> m_pos it + off then m_pos it + off + sz else m_pos it + off)"
proof (induction reg arbitrary: its)
  case Nil
  then show ?case by simp
next
  case (Cons s reg)
  show ?case
  proof (cases s)
    case None
    with Cons show ?thesis by simp
  next
    case (Some k)
    with Cons.prems(1) obtain itk itk' where
      k: "its k = Some itk"
         "rebase bc (m_currentEnd (vs (it_currentEnd itk))) off ip sz itk = Inr itk'"
         "rebase_all bc vs off ip sz reg (its(k \<mapsto> itk')) = Inr its'"
      by (auto split: option.splits sum.splits)
    show ?thesis
    proof (cases "k = h")
      case True
      with Cons.prems(2) Some have "count_list reg (Some h) = 0" by simp
      then have "Some h \<notin> set reg" by (simp add: count_list_0_iff)
      with rebase_all_unregistered [OF k(3)] True have "its' h = Some itk'" by simp
      moreover from k(1) True Cons.prems(3) have "itk = it" by simp
      ultimately show ?thesis using rebase_m_pos [OF k(2)] by simp
    next
      case False
      with Cons.prems(2) Some have "count_list reg (Some h) = 1" by simp
      moreover from False Cons.prems(3) have "(its(k \<mapsto> itk')) h = Some it" by simp
      ultimately show ?thesis using Cons.IH [OF k(3)] by blast
    qed
  qed
qed

lemma rebase_all_unchecked:
  "\<forall>k. Some k \<in> set reg \<longrightarrow> its k \<noteq> None \<Longrightarrow>
   \<exists>its'. rebase_all False vs off ip sz reg its = Inr its'"
proof (induction reg arbitrary: its)
  case Nil
  then show ?case by simp
next
  case (Cons s reg)
  show ?case
  proof (cases s)
    case None
    with Cons show ?thesis by simp
  next
    case (Some k)
    with Cons.prems obtain itk where itk: "its k = Some itk" by auto
    obtain itk' where
      itk': "rebase False (m_currentEnd (vs (it_currentEnd itk))) off ip sz itk = Inr itk'"
      using rebase_unchecked by blast
    have "\<forall>j. Some j \<in> set reg \<longrightarrow> (its(k \<mapsto> itk')) j \<noteq> None"
      using Cons.prems by auto
    from Cons.IH [OF this] obtain its' where
      "rebase_all False vs off ip sz reg (its(k \<mapsto> itk')) = Inr its'" by blast
    with Some itk itk' show ?thesis by simp
  qed
qed

text \<open>
  C3. Let the iterator \<open>h\<close> be registered (once, as the constructor registers it) and let
  the broadcast of \<^verbatim>\<open>completeRealloc\<close> run with \<open>offset\<close>, \<open>insert_ptr\<close> and \<open>insert_size\<close>.
  Whenever the broadcast completes, in either build, the new position of \<open>h\<close> is the old one
  plus \<open>offset\<close>, and plus \<open>insert_size\<close> as well exactly when \<open>insert_size\<close> is not zero and
  the shifted position is at or after \<open>insert_ptr\<close>. Without bounds checking the broadcast
  always completes, provided every registered iterator is a live object.
\<close>

theorem rebase_broadcast_positions:
  assumes "count_list reg (Some h) = 1" and "its h = Some it"
  shows "(rebase_all bc vs offset insert_ptr insert_size reg its = Inr its' \<longrightarrow>
            (\<exists>it'. its' h = Some it' \<and>
               m_pos it' = (if insert_size \<noteq> 0 \<and> insert_ptr \<le> m_pos it + offset
                            then m_pos it + offset + insert_size else m_pos it + offset))) \<and>
         ((\<forall>k. Some k \<in> set reg \<longrightarrow> its k \<noteq> None) \<longrightarrow>
            (\<exists>its'. rebase_all False vs offset insert_ptr insert_size reg its = Inr its'))"
  using assms rebase_all_registered [of bc vs offset insert_ptr insert_size reg its its' h it]
    rebase_all_unchecked [of reg its vs offset insert_ptr insert_size]
  by simp

theorem rebase_broadcast_positions_witness:
  "count_list [Some 1, None, Some 2] (Some (2::nat)) = 1 \<and>
   (\<exists>its'. rebase_all False (\<lambda>c. new_msiv 0 0 :: int msiv) 0 100 1 [Some 1, None, Some 2]
              [1 \<mapsto> \<lparr>m_pos = 99, m_vec = 0, it_currentStart = 0, it_currentEnd = 0\<rparr>,
               2 \<mapsto> \<lparr>m_pos = - 1, m_vec = 0, it_currentStart = 0, it_currentEnd = 0\<rparr>] = Inr its' \<and>
           (\<exists>it'. its' 2 = Some it' \<and> m_pos it' = 0))"
proof -
  let ?reg = "[Some 1, None, Some (2::nat)]"
  let ?it = "\<lparr>m_pos = - 1, m_vec = 0, it_currentStart = 0, it_currentEnd = 0\<rparr>"
  let ?its = "[(1::nat) \<mapsto> \<lparr>m_pos = 99, m_vec = 0, it_currentStart = 0, it_currentEnd = 0\<rparr>,
               2 \<mapsto> ?it]"
  let ?vs = "\<lambda>c::nat. new_msiv 0 0 :: int msiv"
  have c: "count_list ?reg (Some 2) = 1" by simp
  have i: "?its 2 = Some ?it" by simp
  have live: "\<forall>k. Some k \<in> set ?reg \<longrightarrow> ?its k \<noteq> None" by simp
  from c i live rebase_broadcast_positions [where reg = ?reg and h = 2 and its = ?its and it = ?it
      and bc = False and vs = ?vs and offset = 0 and insert_ptr = 100 and insert_size = 1]
  obtain its' where r: "rebase_all False ?vs 0 100 1 ?reg ?its = Inr its'" by blast
  from c i r rebase_broadcast_positions [where reg = ?reg and h = 2 and its = ?its and it = ?it
      and bc = False and vs = ?vs and offset = 0 and insert_ptr = 100 and insert_size = 1
      and its' = its']
  have "\<exists>it'. its' 2 = Some it' \<and> m_pos it' = 0" by simp
  with c r show ?thesis by blast
qed

text \<open>
  The container reaches such a position by itself. In the container with storage at
  address 100 and the one element 10, iterator 1 is \<^verbatim>\<open>begin()\<close>. \<^verbatim>\<open>pop_back()\<close> empties the
  container and sends the iterator to the address one element below \<^verbatim>\<open>nullptr\<close>; as a
  pointer that address lies after every other, so the next \<^verbatim>\<open>push_back\<close>, which appends at
  address 100, shifts the iterator once more, to \<^verbatim>\<open>nullptr\<close>.
\<close>

lemma iterator_below_nullptr_is_shifted:
  "position_of 1 (run [reserve False \<lparr>block = 100, room = 8\<rparr> 0 8,
                       push_back False \<lparr>block = 100, room = 8\<rparr> 0 (10::int),
                       begin_it False 0 1,
                       pop_back False 0] new_world) = Some (- 1) \<and>
   position_of 1 (run [reserve False \<lparr>block = 100, room = 8\<rparr> 0 8,
                       push_back False \<lparr>block = 100, room = 8\<rparr> 0 (10::int),
                       begin_it False 0 1,
                       pop_back False 0,
                       push_back False \<lparr>block = 100, room = 8\<rparr> 0 20] new_world) = Some 0"
  by code_simp

text \<open>
  A removal is broadcast with the address of the removed element as \<open>insert_ptr\<close> and
  \<open>insert_size\<close> -1, and \<^verbatim>\<open>rebase\<close> shifts every iterator at or after \<open>insert_ptr\<close>. So an
  iterator at the removed element itself moves to the element before it. In the container
  10, 20 the iterator 1 points at 20; after \<^verbatim>\<open>pop_back()\<close> it points at 10, one element
  before the end of the container.
\<close>

lemma pop_back_moves_iterator_at_last_element:
  "deref_in False 1 (run [push_back False \<lparr>block = 100, room = 4\<rparr> 0 (10::int),
                          push_back False \<lparr>block = 100, room = 4\<rparr> 0 20,
                          begin_it False 0 1,
                          increment False 1] new_world) = Inr 20 \<and>
   position_of 1 (run [push_back False \<lparr>block = 100, room = 4\<rparr> 0 (10::int),
                       push_back False \<lparr>block = 100, room = 4\<rparr> 0 20,
                       begin_it False 0 1,
                       increment False 1,
                       pop_back False 0] new_world) = Some 100 \<and>
   deref_in False 1 (run [push_back False \<lparr>block = 100, room = 4\<rparr> 0 (10::int),
                          push_back False \<lparr>block = 100, room = 4\<rparr> 0 20,
                          begin_it False 0 1,
                          increment False 1,
                          pop_back False 0] new_world) = Inr 10"
  by code_simp

section \<open>The tracking guarantee without bounds checking\<close>

subsection \<open>Pointers inside the storage\<close>

lemma unat_ptr_add:
  fixes a :: pointer
  assumes "unat a + k < 2 ^ 64"
  shows "unat (a + of_nat k) = unat a + k"
proof -
  have "unat (a + of_nat k) = (unat a + k mod 2 ^ 64) mod 2 ^ 64"
    by (simp add: unat_word_ariths unat_of_nat)
  also have "\<dots> = (unat a + k) mod 2 ^ 64" by (simp add: mod_add_right_eq)
  also have "\<dots> = unat a + k" using assms by simp
  finally show ?thesis .
qed

lemma ptr_before:
  fixes a :: pointer
  assumes "i < k" and "unat a + k < 2 ^ 64"
  shows "\<not> a + of_nat k \<le> a + of_nat i"
proof -
  from assms have "unat a + i < 2 ^ 64" by simp
  then have "unat (a + of_nat i) = unat a + i" by (rule unat_ptr_add)
  moreover from assms(2) have "unat (a + of_nat k) = unat a + k" by (rule unat_ptr_add)
  ultimately show ?thesis using assms(1) by (simp add: word_le_nat_alt)
qed

lemma of_nat_less_size:
  assumes "i < n" and "n < 2 ^ 64"
  shows "(of_nat i :: pointer) < of_nat n" and "unat (of_nat i :: pointer) = i"
proof -
  from assms have i: "i < 2 ^ 64" by simp
  then show u: "unat (of_nat i :: pointer) = i" by (simp add: unat_of_nat)
  from assms(2) have "unat (of_nat n :: pointer) = n" by (simp add: unat_of_nat)
  with u assms(1) show "(of_nat i :: pointer) < of_nat n" by (simp add: word_less_nat_alt)
qed

subsection \<open>The broadcast\<close>

lemma registry_live_iff:
  "registry_live c w \<longleftrightarrow> (\<forall>k. Some k \<in> set (m_iterators (vectors w c)) \<longrightarrow> iterators w k \<noteq> None)"
  by (auto simp: registry_live_def list_all_iff split: option.splits)

lemma rebase_m_vec: "rebase bc ce off ip sz it = Inr it' \<Longrightarrow> m_vec it' = m_vec it"
  by (auto simp: rebase_def Let_def split: if_splits)

lemma rebase_all_m_vec:
  "rebase_all bc vs off ip sz reg its = Inr its' \<Longrightarrow>
   map_option m_vec (its' k) = map_option m_vec (its k)"
proof (induction reg arbitrary: its)
  case Nil
  then show ?case by simp
next
  case (Cons s reg)
  show ?case
  proof (cases s)
    case None
    with Cons show ?thesis by simp
  next
    case (Some j)
    with Cons.prems obtain it it' where
      j: "its j = Some it"
         "rebase bc (m_currentEnd (vs (it_currentEnd it))) off ip sz it = Inr it'"
         "rebase_all bc vs off ip sz reg (its(j \<mapsto> it')) = Inr its'"
      by (auto split: option.splits sum.splits)
    from Cons.IH [OF j(3)] j(1) rebase_m_vec [OF j(2)] show ?thesis
      by (cases "k = j") simp_all
  qed
qed

lemma completeRealloc_m_vec:
  assumes "completeRealloc bc c pre ipos isz w = Inr w'"
  shows "map_option m_vec (iterators w' k) = map_option m_vec (iterators w k)"
  using assms
  by (auto simp: completeRealloc_def Let_def rebase_all_m_vec split: if_splits sum.splits)

text \<open>
  Where \<^verbatim>\<open>completeRealloc\<close> leaves a registered iterator: \<open>ns\<close> is the start of the storage
  as the function takes it, \<^verbatim>\<open>nullptr\<close> for a container without elements.
\<close>

lemma completeRealloc_position:
  assumes "completeRealloc bc c pre ipos isz w = Inr w'"
    and "count_list (m_iterators (vectors w c)) (Some h) = 1"
    and "iterators w h = Some it"
    and "ns = (if elems (m_base (vectors w c)) = [] then 0 else data (m_base (vectors w c)))"
  shows "\<exists>it'. iterators w' h = Some it' \<and>
           m_pos it' = (if isz \<noteq> 0 \<and> ns + ipos \<le> m_pos it + (ns - pre)
                        then m_pos it + (ns - pre) + isz else m_pos it + (ns - pre))"
proof (cases "ns - pre = 0 \<and> isz = 0")
  case True
  with assms(1,4) have "w' = w" by (auto simp: completeRealloc_def Let_def split: if_splits)
  with True assms(3) show ?thesis by simp
next
  case False
  let ?v = "vectors w c"
  let ?v1 = "if bc \<and> ns - pre \<noteq> 0
             then ?v\<lparr>m_currentStart := ns, m_currentEnd := ns + of_nat (length (elems (m_base ?v)))\<rparr>
             else ?v"
  let ?v2 = "if bc then ?v1\<lparr>m_currentEnd := m_currentEnd ?v1 + isz\<rparr> else ?v1"
  have reg: "m_iterators ?v2 = m_iterators ?v" by simp
  from False assms(1,4) obtain its' where
    r: "rebase_all bc ((vectors w)(c := ?v2)) (ns - pre) (ns + ipos) isz (m_iterators ?v2) (iterators w) = Inr its'"
    and w': "iterators w' = its'"
    by (auto simp: completeRealloc_def Let_def split: if_splits sum.splits)
  from rebase_all_registered [OF r [unfolded reg] assms(2,3)] w'
  show ?thesis by simp
qed

lemma completeRealloc_unchecked:
  assumes "registry_live c w"
  shows "\<exists>w'. completeRealloc False c pre ipos isz w = Inr w' \<and> vectors w' = vectors w"
proof -
  let ?ns = "if elems (m_base (vectors w c)) = [] then 0 else data (m_base (vectors w c))"
  from assms have "\<forall>k. Some k \<in> set (m_iterators (vectors w c)) \<longrightarrow> iterators w k \<noteq> None"
    by (simp add: registry_live_iff)
  from rebase_all_unchecked [OF this, of "vectors w" "?ns - pre" "?ns + ipos" isz]
  obtain its' where r: "rebase_all False (vectors w) (?ns - pre) (?ns + ipos) isz
      (m_iterators (vectors w c)) (iterators w) = Inr its'" by blast
  then show ?thesis
    by (auto simp: completeRealloc_def Let_def)
qed

lemma map_option_None_iff: "map_option f x = map_option f y \<Longrightarrow> x = None \<longleftrightarrow> y = None"
  by (cases x; cases y) simp_all

text \<open>
  The common shape of the mutating members: change the backing store, then
  \<^verbatim>\<open>completeRealloc\<close>. An iterator that stands before the place of the change, in a
  container that keeps an element, is at the same index afterwards.
\<close>

lemma mutate_then_realloc:
  assumes t: "tracked c h i w" and ne: "elems b \<noteq> []"
    and sp: "isz = 0 \<or> (i < ipos \<and> unat (data b) + ipos < 2 ^ 64)"
  shows "\<exists>w'. completeRealloc False c (data (m_base (vectors w c))) (of_nat ipos) isz (put_base c b w) = Inr w' \<and>
           m_base (vectors w' c) = b \<and>
           (\<forall>k. iterators w' k = None \<longleftrightarrow> iterators w k = None) \<and>
           tracked c h i w'"
proof -
  let ?w1 = "put_base c b w"
  let ?pre = "data (m_base (vectors w c))"
  from t have live: "registry_live c w" and reg: "registered c h w" and at: "at_index c h i w"
    and mv: "map_option m_vec (iterators w h) = Some c"
    by (simp_all add: tracked_def)
  from at obtain it where it: "iterators w h = Some it" "m_pos it = ?pre + of_nat i"
    by (auto simp: at_index_def)
  have live1: "registry_live c ?w1"
    using live by (simp add: registry_live_iff put_base_def)
  from completeRealloc_unchecked [OF live1, of ?pre "of_nat ipos" isz]
  obtain w' where w': "completeRealloc False c ?pre (of_nat ipos) isz ?w1 = Inr w'"
    "vectors w' = vectors ?w1"
    by blast
  have mvs: "map_option m_vec (iterators w' k) = map_option m_vec (iterators w k)" for k
    using completeRealloc_m_vec [OF w'(1), of k] by (simp add: put_base_def)
  have doms: "\<forall>k. iterators w' k = None \<longleftrightarrow> iterators w k = None"
    using map_option_None_iff [OF mvs] by blast
  have reg1: "count_list (m_iterators (vectors ?w1 c)) (Some h) = 1"
    using reg by (simp add: registered_def put_base_def)
  have it1: "iterators ?w1 h = Some it" using it(1) by (simp add: put_base_def)
  have ns: "data b = (if elems (m_base (vectors ?w1 c)) = [] then 0 else data (m_base (vectors ?w1 c)))"
    using ne by (simp add: put_base_def)
  have moved: "m_pos it + (data b - ?pre) = data b + of_nat i" using it(2) by simp
  have stay: "\<not> (isz \<noteq> 0 \<and> data b + of_nat ipos \<le> data b + of_nat i)"
    using sp ptr_before [of i ipos "data b"] by auto
  from completeRealloc_position [OF w'(1) reg1 it1 ns]
  obtain it' where it': "iterators w' h = Some it'"
    "m_pos it' = (if isz \<noteq> 0 \<and> data b + of_nat ipos \<le> m_pos it + (data b - ?pre)
                  then m_pos it + (data b - ?pre) + isz else m_pos it + (data b - ?pre))"
    by blast
  from it'(2) stay have pos: "m_pos it' = data b + of_nat i" unfolding moved by simp
  have b: "m_base (vectors w' c) = b" using w'(2) by (simp add: put_base_def)
  have r: "m_iterators (vectors w' c) = m_iterators (vectors w c)"
    using w'(2) by (simp add: put_base_def)
  have "registry_live c w'"
    using live doms r by (simp add: registry_live_iff)
  moreover have "registered c h w'" using reg r by (simp add: registered_def)
  moreover have "at_index c h i w'"
    using it'(1) pos b by (simp add: at_index_def)
  moreover have "map_option m_vec (iterators w' h) = Some c" using mvs mv by simp
  ultimately show ?thesis using w'(1) b doms by (simp add: tracked_def)
qed

lemma new_iterator_unchecked:
  assumes t: "tracked c h i w" and fresh: "iterators w rid = None"
  shows "\<exists>w'. new_iterator False c pos rid w = Inr w' \<and>
           m_base (vectors w' c) = m_base (vectors w c) \<and>
           (\<forall>k. k \<noteq> rid \<longrightarrow> iterators w' k = iterators w k) \<and>
           tracked c h i w'"
proof -
  let ?it = "\<lparr>m_pos = pos, m_vec = c, it_currentStart = 0, it_currentEnd = c\<rparr>"
  let ?w' = "w\<lparr>vectors := (vectors w)(c := (vectors w c)
                 \<lparr>m_iterators := addIterator (m_iterators (vectors w c)) rid\<rparr>),
               iterators := (iterators w)(rid \<mapsto> ?it)\<rparr>"
  from t have live: "registry_live c w" and reg: "registered c h w" and at: "at_index c h i w"
    and mv: "map_option m_vec (iterators w h) = Some c"
    by (simp_all add: tracked_def)
  from at fresh have ne: "h \<noteq> rid" by (auto simp: at_index_def)
  have r: "new_iterator False c pos rid w = Inr ?w'"
    by (simp add: new_iterator_def Let_def)
  have b: "m_base (vectors ?w' c) = m_base (vectors w c)" by simp
  have live': "registry_live c ?w'"
    using live by (auto simp: registry_live_iff addIterator_def)
  have "registered c h ?w'"
    using reg ne by (simp add: registered_def addIterator_def)
  moreover have "at_index c h i ?w'"
    using at ne by (simp add: at_index_def)
  moreover have "map_option m_vec (iterators ?w' h) = Some c"
    using mv ne by simp
  ultimately have "tracked c h i ?w'"
    using live' by (simp add: tracked_def)
  moreover have "\<forall>k. k \<noteq> rid \<longrightarrow> iterators ?w' k = iterators w k" by simp
  ultimately show ?thesis using r b by blast
qed

lemma tracked_deref:
  assumes "tracked c h i w" and "i < length (elems (m_base (vectors w c)))"
    and "in_address_space (m_base (vectors w c))"
  shows "deref False h w = Inr (elems (m_base (vectors w c)) ! i)"
proof -
  from assms(3) have "length (elems (m_base (vectors w c))) < 2 ^ 64"
    by (simp add: in_address_space_def)
  from of_nat_less_size [OF assms(2) this] assms(1) show ?thesis
    by (auto simp: tracked_def at_index_def deref_def read_element_def)
qed

subsection \<open>Each member function\<close>

lemma vec_grow_in_address_space:
  assumes "in_address_space v" and "fits al need" and "length xs \<le> need"
  shows "in_address_space ((vec_grow al need v)\<lparr>elems := xs\<rparr>)"
  using assms by (auto simp: in_address_space_def fits_def vec_grow_def)

lemma push_back_tracked:
  assumes t: "tracked c h i w" and i: "i < length (elems (m_base (vectors w c)))"
    and sp: "in_address_space (m_base (vectors w c))"
    and al: "fits al (Suc (length (elems (m_base (vectors w c)))))"
  shows "\<exists>w'. push_back False al c x w = Inr w' \<and>
           elems (m_base (vectors w' c)) = elems (m_base (vectors w c)) @ [x] \<and>
           in_address_space (m_base (vectors w' c)) \<and>
           (\<forall>k. iterators w' k = None \<longleftrightarrow> iterators w k = None) \<and>
           tracked c h i w'"
proof -
  let ?old = "m_base (vectors w c)"
  let ?b = "vec_push_back al x ?old"
  have eb: "elems ?b = elems ?old @ [x]" by (simp add: vec_push_back_def)
  have ne: "elems ?b \<noteq> []" by (simp add: eb)
  have spb: "in_address_space ?b"
    unfolding vec_push_back_def by (rule vec_grow_in_address_space [OF sp al]) simp
  then have "unat (data ?b) + length (elems ?old) < 2 ^ 64"
    by (simp add: in_address_space_def eb)
  with i have "(1::difference_type) = 0 \<or>
      (i < length (elems ?old) \<and> unat (data ?b) + length (elems ?old) < 2 ^ 64)"
    by simp
  from mutate_then_realloc [OF t ne this]
  obtain w' where w':
    "completeRealloc False c (data ?old) (of_nat (length (elems ?old))) 1 (put_base c ?b w) = Inr w'"
    "m_base (vectors w' c) = ?b"
    "\<forall>k. iterators w' k = None \<longleftrightarrow> iterators w k = None"
    "tracked c h i w'"
    by blast
  have "push_back False al c x w = Inr w'"
    using w'(1) by (simp add: push_back_def Let_def)
  with w'(2,3,4) eb spb show ?thesis by simp
qed

lemma pop_back_tracked:
  assumes t: "tracked c h i w" and i: "Suc i < length (elems (m_base (vectors w c)))"
    and sp: "in_address_space (m_base (vectors w c))"
  shows "\<exists>w'. pop_back False c w = Inr w' \<and>
           elems (m_base (vectors w' c)) = butlast (elems (m_base (vectors w c))) \<and>
           in_address_space (m_base (vectors w' c)) \<and>
           (\<forall>k. iterators w' k = None \<longleftrightarrow> iterators w k = None) \<and>
           tracked c h i w'"
proof -
  let ?old = "m_base (vectors w c)"
  let ?b = "vec_pop_back ?old"
  have ne0: "elems ?old \<noteq> []" using i by auto
  have eb: "elems ?b = butlast (elems ?old)" by (simp add: vec_pop_back_def)
  have ne: "elems ?b \<noteq> []" using i by (auto simp: eb dest: arg_cong [where f = length])
  have spb: "in_address_space ?b"
    using sp by (auto simp: in_address_space_def vec_pop_back_def)
  then have "unat (data ?b) + length (elems ?b) < 2 ^ 64"
    by (simp add: in_address_space_def)
  with i have "(- 1::difference_type) = 0 \<or>
      (i < length (elems ?b) \<and> unat (data ?b) + length (elems ?b) < 2 ^ 64)"
    by (simp add: eb)
  from mutate_then_realloc [OF t ne this]
  obtain w' where w':
    "completeRealloc False c (data ?old) (of_nat (length (elems ?b))) (- 1) (put_base c ?b w) = Inr w'"
    "m_base (vectors w' c) = ?b"
    "\<forall>k. iterators w' k = None \<longleftrightarrow> iterators w k = None"
    "tracked c h i w'"
    by blast
  have "pop_back False c w = Inr w'"
    using ne0 w'(1) by (simp add: pop_back_def Let_def put_base_def)
  with w'(2,3,4) eb spb show ?thesis by simp
qed

lemma reserve_tracked:
  assumes t: "tracked c h i w" and ne0: "elems (m_base (vectors w c)) \<noteq> []"
    and sp: "in_address_space (m_base (vectors w c))" and al: "fits al n"
  shows "\<exists>w'. reserve False al c n w = Inr w' \<and>
           elems (m_base (vectors w' c)) = elems (m_base (vectors w c)) \<and>
           in_address_space (m_base (vectors w' c)) \<and>
           (\<forall>k. iterators w' k = None \<longleftrightarrow> iterators w k = None) \<and>
           tracked c h i w'"
proof -
  let ?old = "m_base (vectors w c)"
  let ?b = "vec_reserve al n ?old"
  have eb: "elems ?b = elems ?old" by (simp add: vec_reserve_def vec_grow_def)
  have ne: "elems ?b \<noteq> []" using ne0 by (simp add: eb)
  have spb: "in_address_space ?b"
    using sp al by (auto simp: in_address_space_def fits_def vec_reserve_def vec_grow_def)
  have "(0::difference_type) = 0 \<or> (i < 0 \<and> unat (data ?b) + 0 < 2 ^ 64)" by simp
  from mutate_then_realloc [OF t ne this]
  obtain w' where w':
    "completeRealloc False c (data ?old) 0 0 (put_base c ?b w) = Inr w'"
    "m_base (vectors w' c) = ?b"
    "\<forall>k. iterators w' k = None \<longleftrightarrow> iterators w k = None"
    "tracked c h i w'"
    by auto
  have "reserve False al c n w = Inr w'"
    using w'(1) by (simp add: reserve_def Let_def)
  with w'(2,3,4) eb spb show ?thesis by simp
qed

lemma shrink_to_fit_tracked:
  assumes t: "tracked c h i w" and ne0: "elems (m_base (vectors w c)) \<noteq> []"
    and sp: "in_address_space (m_base (vectors w c))"
    and al: "fits al (length (elems (m_base (vectors w c))))"
  shows "\<exists>w'. shrink_to_fit False al c w = Inr w' \<and>
           elems (m_base (vectors w' c)) = elems (m_base (vectors w c)) \<and>
           in_address_space (m_base (vectors w' c)) \<and>
           (\<forall>k. iterators w' k = None \<longleftrightarrow> iterators w k = None) \<and>
           tracked c h i w'"
proof -
  let ?old = "m_base (vectors w c)"
  let ?b = "vec_shrink_to_fit al ?old"
  have eb: "elems ?b = elems ?old" by (simp add: vec_shrink_to_fit_def)
  have ne: "elems ?b \<noteq> []" using ne0 by (simp add: eb)
  have spb: "in_address_space ?b"
    using sp al by (auto simp: in_address_space_def fits_def vec_shrink_to_fit_def)
  have "(0::difference_type) = 0 \<or> (i < 0 \<and> unat (data ?b) + 0 < 2 ^ 64)" by simp
  from mutate_then_realloc [OF t ne this]
  obtain w' where w':
    "completeRealloc False c (data ?old) 0 0 (put_base c ?b w) = Inr w'"
    "m_base (vectors w' c) = ?b"
    "\<forall>k. iterators w' k = None \<longleftrightarrow> iterators w k = None"
    "tracked c h i w'"
    by auto
  have "shrink_to_fit False al c w = Inr w'"
    using w'(1) by (simp add: shrink_to_fit_def Let_def)
  with w'(2,3,4) eb spb show ?thesis by simp
qed

lemma resize_tracked:
  assumes t: "tracked c h i w" and i: "i < length (elems (m_base (vectors w c)))"
    and n: "i < n"
    and sp: "in_address_space (m_base (vectors w c))" and al: "fits al n"
  shows "\<exists>w'. resize False al c n x w = Inr w' \<and>
           elems (m_base (vectors w' c)) =
             (if n \<le> length (elems (m_base (vectors w c)))
              then take n (elems (m_base (vectors w c)))
              else elems (m_base (vectors w c)) @ replicate (n - length (elems (m_base (vectors w c)))) x) \<and>
           in_address_space (m_base (vectors w' c)) \<and>
           (\<forall>k. iterators w' k = None \<longleftrightarrow> iterators w k = None) \<and>
           tracked c h i w'"
proof (cases "n = length (elems (m_base (vectors w c)))")
  case True
  with t sp show ?thesis by (simp add: resize_def Let_def)
next
  case False
  let ?old = "m_base (vectors w c)"
  let ?b = "vec_resize al n x ?old"
  let ?ipos = "min n (length (elems ?old))"
  let ?isz = "of_nat n - of_nat (length (elems ?old)) :: difference_type"
  have eb: "elems ?b = (if n \<le> length (elems ?old) then take n (elems ?old)
                        else elems ?old @ replicate (n - length (elems ?old)) x)"
    by (simp add: vec_resize_def)
  have len: "length (elems ?b) = n" by (auto simp: eb)
  have neb: "elems ?b \<noteq> []" using n len by auto
  have spb: "in_address_space ?b"
  proof (cases "n \<le> length (elems ?old)")
    case True
    with sp show ?thesis by (simp add: in_address_space_def vec_resize_def)
  next
    case gt: False
    then have "?b = (vec_grow al n ?old)\<lparr>elems := elems ?old @ replicate (n - length (elems ?old)) x\<rparr>"
      by (simp add: vec_resize_def)
    moreover from gt have "length (elems ?old @ replicate (n - length (elems ?old)) x) \<le> n"
      by simp
    ultimately show ?thesis using vec_grow_in_address_space [OF sp al] by simp
  qed
  then have "unat (data ?b) + n < 2 ^ 64"
    by (simp add: in_address_space_def len)
  then have "unat (data ?b) + ?ipos < 2 ^ 64" by simp
  with i n have "?isz = 0 \<or> (i < ?ipos \<and> unat (data ?b) + ?ipos < 2 ^ 64)" by simp
  from mutate_then_realloc [OF t neb this]
  obtain w' where w':
    "completeRealloc False c (data ?old) (of_nat ?ipos) ?isz (put_base c ?b w) = Inr w'"
    "m_base (vectors w' c) = ?b"
    "\<forall>k. iterators w' k = None \<longleftrightarrow> iterators w k = None"
    "tracked c h i w'"
    by blast
  have b1: "m_base (vectors (put_base c ?b w) c) = ?b" by (simp add: put_base_def)
  have r: "resize False al c n x w = Inr w'"
  proof (cases "length (elems ?old) < n")
    case True
    then have "?ipos = length (elems ?old)" by simp
    with True False w'(1) len b1 show ?thesis
      by (simp add: resize_def Let_def)
  next
    case gt: False
    then have "?ipos = n" by simp
    with gt False w'(1) len b1 show ?thesis
      by (simp add: resize_def Let_def)
  qed
  have e: "elems (m_base (vectors w' c)) = (if n \<le> length (elems ?old) then take n (elems ?old)
                        else elems ?old @ replicate (n - length (elems ?old)) x)"
    by (simp only: w'(2) eb)
  from r e spb w'(2,3,4) show ?thesis by simp
qed

subsection \<open>Any series of calls\<close>

lemma mutate_tracked:
  assumes t: "tracked c h i w"
    and i: "i < length (elems (m_base (vectors w c)))"
    and sp: "in_address_space (m_base (vectors w c))"
    and v: "admissible_mutation m (length (elems (m_base (vectors w c))))"
    and fresh: "\<forall>r \<in> set (new_handle m). iterators w r = None"
    and k: "keeps m (length (elems (m_base (vectors w c)))) i"
  shows "\<exists>w'. mutate c m w = Inr w' \<and>
           length (elems (m_base (vectors w' c))) = size_after m (length (elems (m_base (vectors w c)))) \<and>
           i < length (elems (m_base (vectors w' c))) \<and>
           elems (m_base (vectors w' c)) ! i = elems (m_base (vectors w c)) ! i \<and>
           in_address_space (m_base (vectors w' c)) \<and>
           (\<forall>k. k \<notin> set (new_handle m) \<longrightarrow> (iterators w' k = None \<longleftrightarrow> iterators w k = None)) \<and>
           tracked c h i w'"
proof -
  let ?xs = "elems (m_base (vectors w c))"
  have ne: "?xs \<noteq> []" using i by auto
  show ?thesis
  proof (cases m)
    case (PushBack al x)
    with v have "fits al (Suc (length ?xs))" by simp
    from push_back_tracked [OF t i sp this, of x]
    obtain w' where w': "push_back False al c x w = Inr w'"
      "elems (m_base (vectors w' c)) = ?xs @ [x]"
      "in_address_space (m_base (vectors w' c))"
      "\<forall>k. iterators w' k = None \<longleftrightarrow> iterators w k = None"
      "tracked c h i w'"
      by blast
    from w'(2) i have "elems (m_base (vectors w' c)) ! i = ?xs ! i" by (simp add: nth_append)
    with w' i PushBack show ?thesis by simp
  next
    case PopBack
    with k i have si: "Suc i < length ?xs" by simp
    from pop_back_tracked [OF t si sp]
    obtain w' where w': "pop_back False c w = Inr w'"
      "elems (m_base (vectors w' c)) = butlast ?xs"
      "in_address_space (m_base (vectors w' c))"
      "\<forall>k. iterators w' k = None \<longleftrightarrow> iterators w k = None"
      "tracked c h i w'"
      by blast
    from si have ib: "i < length (butlast ?xs)" by simp
    then have "butlast ?xs ! i = ?xs ! i" by (rule nth_butlast)
    with w' ib PopBack show ?thesis by simp
  next
    case (Resize al n x)
    with v k have al: "fits al n" and n: "i < n" by simp_all
    from resize_tracked [OF t i n sp al, of x]
    obtain w' where w': "resize False al c n x w = Inr w'"
      "elems (m_base (vectors w' c)) =
         (if n \<le> length ?xs then take n ?xs else ?xs @ replicate (n - length ?xs) x)"
      "in_address_space (m_base (vectors w' c))"
      "\<forall>k. iterators w' k = None \<longleftrightarrow> iterators w k = None"
      "tracked c h i w'"
      by blast
    from w'(2) have len: "length (elems (m_base (vectors w' c))) = n" by auto
    from w'(2) i n have "elems (m_base (vectors w' c)) ! i = ?xs ! i"
      by (simp add: nth_append)
    with w'(1,3,4,5) len n Resize show ?thesis by simp
  next
    case (Reserve al n)
    with v have "fits al n" by simp
    from reserve_tracked [OF t ne sp this]
    obtain w' where "reserve False al c n w = Inr w'"
      "elems (m_base (vectors w' c)) = ?xs"
      "in_address_space (m_base (vectors w' c))"
      "\<forall>k. iterators w' k = None \<longleftrightarrow> iterators w k = None"
      "tracked c h i w'"
      by blast
    with i Reserve show ?thesis by simp
  next
    case (ShrinkToFit al)
    with v have "fits al (length ?xs)" by simp
    from shrink_to_fit_tracked [OF t ne sp this]
    obtain w' where "shrink_to_fit False al c w = Inr w'"
      "elems (m_base (vectors w' c)) = ?xs"
      "in_address_space (m_base (vectors w' c))"
      "\<forall>k. iterators w' k = None \<longleftrightarrow> iterators w k = None"
      "tracked c h i w'"
      by blast
    with i ShrinkToFit show ?thesis by simp
  next
    case (NewIterator j rid)
    with fresh have fr: "iterators w rid = None" by simp
    from new_iterator_unchecked [OF t fr, of "data (m_base (vectors w c)) + of_nat j"]
    obtain w' where w':
      "new_iterator False c (data (m_base (vectors w c)) + of_nat j) rid w = Inr w'"
      "m_base (vectors w' c) = m_base (vectors w c)"
      "\<forall>k. k \<noteq> rid \<longrightarrow> iterators w' k = iterators w k"
      "tracked c h i w'"
      by blast
    with i sp NewIterator show ?thesis by simp
  qed
qed

lemma mutations_tracked:
  assumes "tracked c h i w"
    and "i < length (elems (m_base (vectors w c)))"
    and "in_address_space (m_base (vectors w c))"
    and "admissible_mutations ms (length (elems (m_base (vectors w c))))"
    and "distinct (new_handles ms)"
    and "\<forall>r \<in> set (new_handles ms). iterators w r = None"
    and "keeps_all ms (length (elems (m_base (vectors w c)))) i"
  shows "\<exists>w'. mutations c ms w = Inr w' \<and> tracked c h i w' \<and>
           i < length (elems (m_base (vectors w' c))) \<and>
           in_address_space (m_base (vectors w' c)) \<and>
           elems (m_base (vectors w' c)) ! i = elems (m_base (vectors w c)) ! i"
  using assms
proof (induction ms arbitrary: w)
  case Nil
  then show ?case by simp
next
  case (Cons m ms)
  let ?n = "length (elems (m_base (vectors w c)))"
  from Cons.prems(7) have k: "keeps m ?n i" and rest: "keeps_all ms (size_after m ?n) i"
    by simp_all
  from Cons.prems(4) have v: "admissible_mutation m ?n" and vs: "admissible_mutations ms (size_after m ?n)"
    by simp_all
  from Cons.prems(6) have fr: "\<forall>r \<in> set (new_handle m). iterators w r = None" by simp
  from mutate_tracked [OF Cons.prems(1,2,3) v fr k]
  obtain w1 where w1: "mutate c m w = Inr w1"
    "length (elems (m_base (vectors w1 c))) = size_after m ?n"
    "i < length (elems (m_base (vectors w1 c)))"
    "elems (m_base (vectors w1 c)) ! i = elems (m_base (vectors w c)) ! i"
    "in_address_space (m_base (vectors w1 c))"
    "\<forall>k. k \<notin> set (new_handle m) \<longrightarrow> (iterators w1 k = None \<longleftrightarrow> iterators w k = None)"
    "tracked c h i w1"
    by blast
  from Cons.prems(5) have d: "distinct (new_handles ms)"
    and disj: "set (new_handle m) \<inter> set (new_handles ms) = {}" by simp_all
  have fr1: "\<forall>r \<in> set (new_handles ms). iterators w1 r = None"
  proof
    fix r
    assume r: "r \<in> set (new_handles ms)"
    with disj have "r \<notin> set (new_handle m)" by auto
    moreover from r Cons.prems(6) have "iterators w r = None" by simp
    ultimately show "iterators w1 r = None" using w1(6) by simp
  qed
  from vs w1(2) have vs1: "admissible_mutations ms (length (elems (m_base (vectors w1 c))))"
    by simp
  from rest w1(2) have rest1: "keeps_all ms (length (elems (m_base (vectors w1 c)))) i"
    by simp
  from Cons.IH [OF w1(7,3,5) vs1 d fr1 rest1]
  obtain w' where w': "mutations c ms w1 = Inr w'" "tracked c h i w'"
    "i < length (elems (m_base (vectors w' c)))"
    "in_address_space (m_base (vectors w' c))"
    "elems (m_base (vectors w' c)) ! i = elems (m_base (vectors w1 c)) ! i"
    by blast
  with w1(1,4) show ?case by simp
qed

text \<open>
  In a build without bounds checking, let the registered iterator \<open>h\<close> point at the element
  at index \<open>i\<close> of a container whose storage lies inside the address space. Any series of
  admissible calls of \<^verbatim>\<open>push_back\<close>, \<^verbatim>\<open>pop_back\<close>, \<^verbatim>\<open>resize\<close>, \<^verbatim>\<open>reserve\<close>, \<^verbatim>\<open>shrink_to_fit\<close>,
  \<^verbatim>\<open>begin\<close> and \<^verbatim>\<open>end\<close> that does not remove that element runs to completion, and
  afterwards \<open>h\<close> dereferences to the same element.
\<close>

lemma element_followed_through_mutations:
  assumes "tracked c h i w"
    and "i < length (elems (m_base (vectors w c)))"
    and "in_address_space (m_base (vectors w c))"
    and "admissible_mutations ms (length (elems (m_base (vectors w c))))"
    and "distinct (new_handles ms)"
    and "\<forall>r \<in> set (new_handles ms). iterators w r = None"
    and "keeps_all ms (length (elems (m_base (vectors w c)))) i"
  shows "\<exists>w'. mutations c ms w = Inr w' \<and>
           deref False h w' = Inr (elems (m_base (vectors w c)) ! i) \<and>
           deref False h w = Inr (elems (m_base (vectors w c)) ! i)"
proof -
  from mutations_tracked [OF assms]
  obtain w' where w': "mutations c ms w = Inr w'" "tracked c h i w'"
    "i < length (elems (m_base (vectors w' c)))"
    "in_address_space (m_base (vectors w' c))"
    "elems (m_base (vectors w' c)) ! i = elems (m_base (vectors w c)) ! i"
    by blast
  have "deref False h w' = Inr (elems (m_base (vectors w' c)) ! i)"
    using w'(2,3,4) by (rule tracked_deref)
  moreover have "deref False h w = Inr (elems (m_base (vectors w c)) ! i)"
    using assms(1,2,3) by (rule tracked_deref)
  ultimately show ?thesis using w'(1,5) by simp
qed

text \<open>
  An instance: in the container 10, 20, 30 (storage for three elements at address 100)
  iterator 1 points at 20. The calls \<^verbatim>\<open>push_back(40)\<close>, \<^verbatim>\<open>end()\<close>, \<^verbatim>\<open>reserve(40)\<close>,
  \<^verbatim>\<open>pop_back()\<close>, \<^verbatim>\<open>resize(2)\<close>, \<^verbatim>\<open>shrink_to_fit()\<close> and \<^verbatim>\<open>resize(5, 0)\<close>, with four
  reallocations on the way, leave iterator 1 at 20.
\<close>

lemma second_of_three_tracked:
  "(case run second_of_three new_world of
      Inl e \<Rightarrow> False
    | Inr w \<Rightarrow> tracked 0 1 1 w \<and> elems (m_base (vectors w 0)) = [10, 20, 30] \<and>
               data (m_base (vectors w 0)) = 100 \<and> capacity (m_base (vectors w 0)) = 3 \<and>
               iterators w 7 = None)"
  by code_simp

lemma element_followed_example:
  "\<exists>w w'. run second_of_three new_world = Inr w \<and>
     mutations 0 [PushBack \<lparr>block = 200, room = 6\<rparr> 40, NewIterator 4 7,
                  Reserve \<lparr>block = 300, room = 40\<rparr> 40, PopBack, Resize \<lparr>block = 400, room = 8\<rparr> 2 0,
                  ShrinkToFit \<lparr>block = 500, room = 2\<rparr>,
                  Resize \<lparr>block = 600, room = 8\<rparr> 5 0] w = Inr w' \<and>
     deref False 1 w = Inr 20 \<and> deref False 1 w' = Inr 20"
proof -
  let ?ms = "[PushBack \<lparr>block = 200, room = 6\<rparr> 40, NewIterator 4 7,
              Reserve \<lparr>block = 300, room = 40\<rparr> 40, PopBack, Resize \<lparr>block = 400, room = 8\<rparr> 2 0,
              ShrinkToFit \<lparr>block = 500, room = 2\<rparr>,
              Resize \<lparr>block = 600, room = 8\<rparr> 5 0] :: int mutation list"
  from second_of_three_tracked obtain w where w: "run second_of_three new_world = Inr w"
    "tracked 0 1 1 w" "elems (m_base (vectors w 0)) = [10, 20, 30]"
    "data (m_base (vectors w 0)) = 100" "capacity (m_base (vectors w 0)) = 3"
    "iterators w 7 = None"
    by (auto split: sum.splits)
  have i: "1 < length (elems (m_base (vectors w 0)))" using w(3) by simp
  have sp: "in_address_space (m_base (vectors w 0))"
    using w(3,4,5) by (simp add: in_address_space_def)
  have a: "admissible_mutations ?ms (length (elems (m_base (vectors w 0))))"
    using w(3) by (simp add: fits_def)
  have n: "distinct (new_handles ?ms)" by simp
  have f: "\<forall>r \<in> set (new_handles ?ms). iterators w r = None" using w(6) by simp
  have ka: "keeps_all ?ms (length (elems (m_base (vectors w 0)))) 1" using w(3) by simp
  from element_followed_through_mutations [OF w(2) i sp a n f ka]
  obtain w' where "mutations 0 ?ms w = Inr w'"
    "deref False 1 w' = Inr (elems (m_base (vectors w 0)) ! 1)"
    "deref False 1 w = Inr (elems (m_base (vectors w 0)) ! 1)" by blast
  with w(1,3) show ?thesis by simp
qed

section \<open>Properties of the model cache\<close>

lemma FindModel_hit:
  "m_models name = Some m \<Longrightarrow> FindModel L m_models name = (Inr m, m_models)"
  by (simp add: FindModel_def)

lemma FindModel_keeps:
  "m_models name = Some m \<Longrightarrow> snd (FindModel L m_models other) name = Some m"
  by (auto simp: FindModel_def split: option.splits)

lemma FindModels_keeps:
  "m_models name = Some m \<Longrightarrow> FindModels ls m_models name = Some m"
proof (induction ls arbitrary: m_models)
  case Nil
  then show ?case by simp
next
  case (Cons a ls)
  obtain L other where a: "a = (L, other)" by (cases a)
  from Cons.prems have "snd (FindModel L m_models other) name = Some m"
    by (rule FindModel_keeps)
  then have "FindModels ls (snd (FindModel L m_models other)) name = Some m"
    by (rule Cons.IH)
  with a show ?case by simp
qed

text \<open>
  C9. A lookup of a name that is not cached calls the loader; if the loader delivers \<open>m\<close>,
  the lookup returns \<open>m\<close> and caches it under the name. After any number of further lookups
  (\<open>later\<close>), a lookup of the same name returns \<open>m\<close> again and leaves the cache as it is,
  whatever the loader would now answer (\<open>LoadModel'\<close>): the loader is not consulted. In
  general a cached name is returned from the cache. If the loader fails, the lookup throws
  \<^verbatim>\<open>ModelNotFoundException\<close> and the cache is unchanged, so the name is still not cached
  and the next lookup calls the loader again.
\<close>

theorem FindModel_loads_once:
  "(m_models name = None \<and> LoadModel name = Some m \<longrightarrow>
      FindModel LoadModel m_models name = (Inr m, m_models(name \<mapsto> m)) \<and>
      FindModel LoadModel' (FindModels later (m_models(name \<mapsto> m))) name =
        (Inr m, FindModels later (m_models(name \<mapsto> m)))) \<and>
   (m_models name = Some m \<longrightarrow> FindModel LoadModel m_models name = (Inr m, m_models)) \<and>
   (m_models name = None \<and> LoadModel name = None \<longrightarrow>
      FindModel LoadModel m_models name = (Inl ModelNotFoundException, m_models) \<and>
      snd (FindModel LoadModel m_models name) name = None)"
proof -
  have "FindModels later (m_models(name \<mapsto> m)) name = Some m"
    by (rule FindModels_keeps) simp
  then have "FindModel LoadModel' (FindModels later (m_models(name \<mapsto> m))) name =
        (Inr m, FindModels later (m_models(name \<mapsto> m)))"
    by (rule FindModel_hit)
  then show ?thesis
    by (simp add: FindModel_def)
qed

theorem FindModel_loads_once_witness:
  "FindModel (\<lambda>n. if n = ''ship'' then Some (7::nat) else None) Map.empty ''ship''
     = (Inr 7, [''ship'' \<mapsto> 7]) \<and>
   FindModel (\<lambda>n. None) (FindModels [(\<lambda>n. Some 9, ''rock'')] [''ship'' \<mapsto> 7]) ''ship''
     = (Inr (7::nat), FindModels [(\<lambda>n. Some 9, ''rock'')] [''ship'' \<mapsto> 7]) \<and>
   FindModel (\<lambda>n. None) [''ship'' \<mapsto> (7::nat)] ''ship'' = (Inr 7, [''ship'' \<mapsto> 7]) \<and>
   FindModel (\<lambda>n. None) (Map.empty :: string \<rightharpoonup> nat) ''ship''
     = (Inl ModelNotFoundException, Map.empty)"
  using FindModel_loads_once [of Map.empty "''ship''"
           "\<lambda>n. if n = ''ship'' then Some (7::nat) else None" 7
           "\<lambda>n. None" "[(\<lambda>n. Some 9, ''rock'')]"]
        FindModel_loads_once [of "[''ship'' \<mapsto> (7::nat)]" "''ship''" "\<lambda>n. None" 7]
        FindModel_loads_once [of "Map.empty :: string \<rightharpoonup> nat" "''ship''" "\<lambda>n. None"]
  by simp

section \<open>Where the code departs from what is claimed\<close>

text \<open>
  The shadow pointer \<^verbatim>\<open>m_currentEnd\<close> of the container is set afresh by \<^verbatim>\<open>completeRealloc\<close>
  only when the start of the storage has moved. \<^verbatim>\<open>pop_back()\<close> on a container of one element
  counts as a move to \<^verbatim>\<open>nullptr\<close> and leaves it one element below \<^verbatim>\<open>nullptr\<close>; the
  \<^verbatim>\<open>push_back\<close> that follows finds storage in place, so the start has not moved, and leaves
  it at \<^verbatim>\<open>nullptr\<close>. Whatever the two shadow pointers of a new container held, whatever the
  address of the storage and whatever the elements, \<^verbatim>\<open>begin()\<close> then gives an iterator that
  a build with bounds checking refuses to dereference, while a build without reads the
  element.
\<close>

lemma dereference_after_emptying_with_bounds_checking:
  assumes "block al \<noteq> 0"
  shows "deref_in True h (run [push_back True al c x, pop_back True c, push_back True al' c y,
            begin_it True c h] \<lparr>vectors = (\<lambda>c. new_msiv s e), iterators = Map.empty\<rparr>)
         = Inl AssertionFailure"
  using assms
  by (simp add: push_back_def pop_back_def begin_it_def new_iterator_def completeRealloc_def
      put_base_def vec_push_back_def vec_pop_back_def vec_grow_def vec_subscript_addr_def
      new_msiv_def deref_in_def deref_def read_element_def rebase_def Let_def)

lemma dereference_after_emptying_without_bounds_checking:
  assumes "block al \<noteq> 0"
  shows "deref_in False h (run [push_back False al c x, pop_back False c, push_back False al' c y,
            begin_it False c h] \<lparr>vectors = (\<lambda>c. new_msiv s e), iterators = Map.empty\<rparr>)
         = Inr y"
  using assms
  by (simp add: push_back_def pop_back_def begin_it_def new_iterator_def completeRealloc_def
      put_base_def vec_push_back_def vec_pop_back_def vec_grow_def vec_subscript_addr_def
      new_msiv_def deref_in_def deref_def read_element_def rebase_def Let_def)

text \<open>
  C1. A registered iterator created at an element should dereference to that element for as
  long as the element is in the container. In a build with bounds checking it does not
  once the container has been empty: after \<^verbatim>\<open>push_back(10)\<close>, \<^verbatim>\<open>pop_back()\<close> and
  \<^verbatim>\<open>push_back(20)\<close> the container holds 20 at address 100 and iterator 1, \<^verbatim>\<open>begin()\<close>, stands at
  address 100, but dereferencing it fails the assertion \<^verbatim>\<open>m_pos < *m_currentEnd\<close>, and a
  further \<^verbatim>\<open>push_back(30)\<close> fails the assertion \<^verbatim>\<open>m_pos <= *m_currentEnd\<close> of \<^verbatim>\<open>rebase\<close>. The
  same calls in a build without bounds checking leave the iterator dereferencing to 20.
\<close>

theorem emptied_container_fails_bounds_assertions:
  "contents_of 0 (run (emptied_then_filled True) new_world) = Some [20] \<and>
   storage_of 0 (run (emptied_then_filled True) new_world) = Some (100, 4) \<and>
   position_of 1 (run (emptied_then_filled True) new_world) = Some 100 \<and>
   deref_in True 1 (run (emptied_then_filled True) new_world) = Inl AssertionFailure \<and>
   failure_of (run (emptied_then_filled True @
       [push_back True \<lparr>block = 200, room = 8\<rparr> 0 30]) new_world) = Some AssertionFailure \<and>
   deref_in False 1 (run (emptied_then_filled False) new_world) = Inr 20 \<and>
   deref_in False 1 (run (emptied_then_filled False @
       [push_back False \<lparr>block = 200, room = 8\<rparr> 0 30]) new_world) = Inr 20"
  by code_simp


text \<open>
  Copy construction changes no registry. Assignment from an iterator of another container
  removes the assigned iterator from the registry of its old container and appends it to
  the registry of the new one.
\<close>

lemma copy_construct_registers_nothing:
  "copy_construct h other w = Inr w' \<Longrightarrow>
   vectors w' = vectors w \<and> iterators w' h = iterators w other"
  by (auto simp: copy_construct_def split: option.splits)

lemma assign_from_other_container:
  assumes "iterators w h = Some this" and "iterators w other = Some ot"
    and "m_vec this \<noteq> m_vec ot"
  shows "\<exists>w' it'. assign bc h other w = Inr w' \<and>
           m_iterators (vectors w' (m_vec this)) =
             removeIterator (m_iterators (vectors w (m_vec this))) h \<and>
           m_iterators (vectors w' (m_vec ot)) =
             addIterator (m_iterators (vectors w (m_vec ot))) h \<and>
           iterators w' h = Some it' \<and> m_pos it' = m_pos ot \<and> m_vec it' = m_vec ot"
  using assms by (auto simp: assign_def Let_def)

text \<open>
  C6. A copy of an iterator should be registered with the container. The copy at address 2
  of the registered iterator 1 is not: the registry holds iterator 1 alone. When
  \<^verbatim>\<open>push_back\<close> then moves the storage from address 100 to address 200, iterator 1 follows
  and still dereferences to 10, while the copy stays at address 100, which is no longer
  part of the container.
\<close>

theorem copied_iterator_not_registered:
  "registry_of 0 (run copied_iterator new_world) = Some [Some 1] \<and>
   deref_in False 2 (run copied_iterator new_world) = Inr 10 \<and>
   deref_in False 1 (run (copied_iterator @
       [push_back False \<lparr>block = 200, room = 6\<rparr> 0 40]) new_world) = Inr 10 \<and>
   position_of 1 (run (copied_iterator @
       [push_back False \<lparr>block = 200, room = 6\<rparr> 0 40]) new_world) = Some 200 \<and>
   position_of 2 (run (copied_iterator @
       [push_back False \<lparr>block = 200, room = 6\<rparr> 0 40]) new_world) = Some 100 \<and>
   deref_in False 2 (run (copied_iterator @
       [push_back False \<lparr>block = 200, room = 6\<rparr> 0 40]) new_world) = Inl InvalidRead"
  by code_simp

text \<open>
  A \<^verbatim>\<open>reserve\<close> that does not reallocate leaves a container with elements as it is
  (\<open>reserve_tracked\<close>). On a container without elements it moves every registered iterator
  back by the address of the storage.
\<close>

lemma reserve_moves_iterators_of_empty_container:
  assumes "registry_live c w" and "registered c h w" and "iterators w h = Some it"
    and "elems (m_base (vectors w c)) = []" and "n \<le> capacity (m_base (vectors w c))"
  shows "\<exists>w' it'. reserve False al c n w = Inr w' \<and>
           m_base (vectors w' c) = m_base (vectors w c) \<and>
           iterators w' h = Some it' \<and> m_pos it' = m_pos it - data (m_base (vectors w c))"
proof -
  let ?pre = "data (m_base (vectors w c))"
  have same: "put_base c (vec_reserve al n (m_base (vectors w c))) w = w"
    using assms(5) by (simp add: put_base_def vec_reserve_def vec_grow_def)
  from completeRealloc_unchecked [OF assms(1), of ?pre 0 0]
  obtain w' where w': "completeRealloc False c ?pre 0 0 w = Inr w'" "vectors w' = vectors w"
    by blast
  from completeRealloc_position [OF w'(1) assms(2) [unfolded registered_def] assms(3) refl] assms(4)
  obtain it' where "iterators w' h = Some it'" "m_pos it' = m_pos it - ?pre" by auto
  moreover have "reserve False al c n w = Inr w'"
    using w'(1) same by (simp add: reserve_def Let_def)
  ultimately show ?thesis using w'(2) by simp
qed

text \<open>
  C8. \<^verbatim>\<open>reserve(capacity())\<close> should move no iterator. On the empty container with storage
  for eight elements at address 100, \<^verbatim>\<open>reserve(8)\<close> leaves the storage where it is and
  moves the iterator 1 from address 100 to address 0; a second \<^verbatim>\<open>reserve(8)\<close> moves it
  on to address -100.
\<close>

theorem reserve_capacity_moves_iterator_of_empty_container:
  "storage_of 0 (run reserved_empty new_world) = Some (100, 8) \<and>
   contents_of 0 (run reserved_empty new_world) = Some [] \<and>
   position_of 1 (run reserved_empty new_world) = Some 100 \<and>
   storage_of 0 (run (reserved_empty @
       [reserve False \<lparr>block = 200, room = 16\<rparr> 0 8]) new_world) = Some (100, 8) \<and>
   position_of 1 (run (reserved_empty @
       [reserve False \<lparr>block = 200, room = 16\<rparr> 0 8]) new_world) = Some 0 \<and>
   position_of 1 (run (reserved_empty @
       [reserve False \<lparr>block = 200, room = 16\<rparr> 0 8,
        reserve False \<lparr>block = 200, room = 16\<rparr> 0 8]) new_world) = Some (- 100)"
  by code_simp

text \<open>
  Without bounds checking \<^verbatim>\<open>begin()\<close> and \<^verbatim>\<open>end()\<close> always succeed and compare equal
  exactly when the container has no elements (its size is a \<^verbatim>\<open>size_type\<close>, below
  \<open>2 ^ 64\<close>). With bounds checking they succeed on a container that has elements and fail
  on one that has none.
\<close>

lemma of_nat_size_eq_0:
  "n < 2 ^ 64 \<Longrightarrow> (of_nat n :: 64 word) = 0 \<longleftrightarrow> n = 0"
  by (auto simp: word_of_nat_eq_0_iff dest: dvd_imp_le)

lemma begin_end_without_bounds_checking:
  assumes "length (elems (m_base (vectors w c))) < 2 ^ 64"
  shows "\<exists>w1 w2. begin_it False c a w = Inr w1 \<and> end_it False c b w1 = Inr w2 \<and>
     (a \<noteq> b \<longrightarrow> iter_eq False a b w2 = Inr (elems (m_base (vectors w c)) = []))"
  using of_nat_size_eq_0 [OF assms]
  by (auto simp: begin_it_def end_it_def new_iterator_def iter_eq_def Let_def)

lemma begin_end_with_bounds_checking:
  "begin_it True c a w =
     (if elems (m_base (vectors w c)) = [] then Inl SubscriptOutOfRange
      else new_iterator True c (data (m_base (vectors w c))) a w) \<and>
   (elems (m_base (vectors w c)) = [] \<longrightarrow> end_it True c a w = Inl SubscriptOutOfRange) \<and>
   (elems (m_base (vectors w c)) \<noteq> [] \<longrightarrow> (\<exists>w'. begin_it True c a w = Inr w'))"
  by (auto simp: begin_it_def end_it_def new_iterator_def vec_subscript_addr_def Let_def)

text \<open>
  C10. \<^verbatim>\<open>begin()\<close> and \<^verbatim>\<open>end()\<close> should succeed on every container. With bounds checking,
  on a new, empty container both stop in the constructor of the iterator, at the subscript
  \<^verbatim>\<open>m_base[0]\<close> of a backing store without elements.
\<close>

theorem begin_of_empty_container_fails_with_bounds_checking:
  "begin_it True 0 1 (new_world :: int world) = Inl SubscriptOutOfRange \<and>
   end_it True 0 1 (new_world :: int world) = Inl SubscriptOutOfRange"
  by (simp add: begin_it_def end_it_def new_iterator_def new_world_def new_msiv_def
      vec_subscript_addr_def)

end

